theory Spec2Isabelle
  imports Complex_Main "HOL-Library.AList"
begin

section \<open>TaskNap: the scheduling core of \<open>TaskNap.py\<close>\<close>

text \<open>
  The theory embeds the part of \<open>SchedulerApp\<close> that schedules, pre-notifies,
  executes and cancels power actions, together with \<open>PreActionDialog\<close>, the
  inactivity check and the logger. Widgets, the tray icon and the settings store are
  kept only as far as the scheduling code reads or writes them.

  Conventions of the embedding:
  \<^item> A point in time (\<open>QDateTime\<close>, \<open>datetime\<close>) is an \<open>int\<close>, in milliseconds,
    the resolution of \<open>QDateTime\<close>.
  \<^item> The three action strings \<open>'shutdown'\<close>, \<open>'restart'\<close>, \<open>'sleep'\<close> are the only
    values ever passed as \<open>action_type\<close>; they form the datatype \<open>action\<close>.
  \<^item> A Python \<open>dict\<close> keeps insertion order, and \<open>cancel_all_scheduled_events\<close>
    iterates over it, so \<open>scheduled_events\<close> is an association list in insertion
    order (\<open>AList.update\<close> is \<open>d[k] = v\<close>, \<open>AList.delete\<close> is \<open>del d[k]\<close>).
  \<^item> \<open>QTimer\<close> objects live in a store (\<open>timers\<close>); a reference to a timer is its
    index there. The tuple stored in \<open>scheduled_events\<close> holds such a reference.
  \<^item> Every method returns an \<open>outcome\<close> and the state it leaves behind: what a method
    has mutated before an exception is raised stays mutated.
  \<^item> What the code reads from its surroundings (the wall clock, the picker widget, the
    platform, whether the log file can be written) are fields of the state.
\<close>

subsection \<open>Data\<close>

datatype action = Shutdown | Restart | Sleep

type_synonym datetime = int

text \<open>
  The texts the code builds. \<open>Literal\<close> is a string literal of the source; every other
  constructor is one f-string of the source with the values it interpolates.
\<close>

datatype message =
    Literal string
  | ScheduledAt action datetime
    \<comment> \<open>\<open>f"Scheduled {action_type} at {scheduled_datetime}"\<close>\<close>
  | ScheduledInfo action datetime nat
    \<comment> \<open>\<open>f'Scheduled {action_type} at {...}. ({len(self.scheduled_events)} events scheduled.)'\<close>\<close>
  | WillOccurIn action int
    \<comment> \<open>\<open>f"{action_type.title()} will occur in {notify_seconds} seconds..."\<close>\<close>
  | WillPerformIn action int
    \<comment> \<open>the text of \<open>PreActionDialog\<close>: \<open>"The system will perform '{action_type}' in {n} seconds. ..."\<close>\<close>
  | ExecutedAt action datetime
    \<comment> \<open>\<open>f"Executed {action_type} at {datetime.now()}"\<close>\<close>
  | ExecutedRemain action datetime nat
    \<comment> \<open>\<open>f'Executed {action_type} at {...}. {remaining} event(s) remain scheduled.'\<close>\<close>
  | ExecutedNoMore action datetime
    \<comment> \<open>\<open>f'Executed {action_type} at {...}. No more scheduled events.'\<close>\<close>
  | ActionExecutedTitle action
    \<comment> \<open>\<open>f"Action Executed: {action_type.title()}"\<close>\<close>
  | CanceledAt action datetime bool
    \<comment> \<open>\<open>f"Canceled {action_type} scheduled at {scheduled_datetime}"\<close>, followed by
        \<open>" (by user)."\<close> when the flag is set\<close>

datatype icon = Information | Warning

text \<open>
  The keys of \<open>config.ini\<close> as \<open>QSettings.value(key, default, type=...)\<close> returns
  them (an absent key reads as its default, see \<open>default_config\<close>).
\<close>

record config =
  notifications_enable :: bool
  notifications_seconds_before :: int
  logging_enable :: bool
  startup_enable :: bool
  ui_minimize_to_tray :: bool
  auto_sleep_enable :: bool
  auto_sleep_timeout_minutes :: int

definition default_config :: config where
  "default_config =
     \<lparr>notifications_enable = False, notifications_seconds_before = 30,
      logging_enable = False, startup_enable = False, ui_minimize_to_tray = False,
      auto_sleep_enable = False, auto_sleep_timeout_minutes = 30\<rparr>"

text \<open>
  A \<open>QTimer\<close> created by \<open>schedule_action\<close>. \<open>slot\<close> is the \<open>timer_id\<close> captured by
  the lambda connected to \<open>timeout\<close>.
\<close>

record qtimer =
  single_shot :: bool
  interval :: int
  active :: bool
  slot :: int

datatype dialog_code = Accepted | Rejected

record pre_action_dialog =
  dlg_action_type :: action
  dlg_timeout :: int
  dlg_text :: message
  close_timer_active :: bool
  remaining_time :: int
  user_canceled :: bool
  dlg_result :: "dialog_code option"

record app =
  settings :: config
  scheduled_events :: "(int \<times> nat \<times> action \<times> datetime) list"
  last_timer_id :: int
  timers :: "qtimer list"
  info_label :: message
  tray_messages :: "(message \<times> message \<times> icon \<times> int) list"
  os_system_calls :: "string list"
  log_file :: "(datetime \<times> message) list"
  clock :: datetime
  datetime_picker :: datetime
  os_windows :: bool
  log_writable :: bool

datatype exn = OSError

text \<open>
  How a method ends: it returns, it raises, or (only \<open>prepare_for_action\<close>) it is still
  inside \<open>dialog.exec_()\<close>, with the dialog on screen.
\<close>

datatype outcome = Returned | Raised exn | Showing pre_action_dialog

definition and_then :: "outcome \<times> app \<Rightarrow> (app \<Rightarrow> outcome \<times> app) \<Rightarrow> outcome \<times> app" where
  "and_then r k = (case fst r of Returned \<Rightarrow> k (snd r) | _ \<Rightarrow> r)"

definition event_ids :: "app \<Rightarrow> int list" where
  "event_ids s = map fst (scheduled_events s)"

subsection \<open>\<open>SchedulerApp.__init__\<close>\<close>

definition SchedulerApp_init :: "config \<Rightarrow> datetime \<Rightarrow> bool \<Rightarrow> bool \<Rightarrow> app" where
  "SchedulerApp_init cfg now windows writable =
     \<lparr>settings = cfg, scheduled_events = [], last_timer_id = 0, timers = [],
      info_label = Literal ''No scheduled events.'', tray_messages = [],
      os_system_calls = [], log_file = [], clock = now, datetime_picker = now,
      os_windows = windows, log_writable = writable\<rparr>"

subsection \<open>Timers\<close>

definition isActive :: "nat \<Rightarrow> app \<Rightarrow> bool" where
  "isActive timer s = (timer < length (timers s) \<and> active (timers s ! timer))"

definition stop :: "nat \<Rightarrow> app \<Rightarrow> app" where
  "stop timer s = s\<lparr>timers := (timers s)[timer := (timers s ! timer)\<lparr>active := False\<rparr>]\<rparr>"

subsection \<open>\<open>perform_system_action\<close> and \<open>log_event\<close>\<close>

definition system_command :: "bool \<Rightarrow> action \<Rightarrow> string" where
  "system_command windows action_type =
     (case action_type of
        Shutdown \<Rightarrow> (if windows then ''shutdown /s /f /t 0'' else ''shutdown -h now'')
      | Restart \<Rightarrow> (if windows then ''shutdown /r /f /t 0'' else ''shutdown -r now'')
      | Sleep \<Rightarrow> (if windows then ''rundll32.exe powrprof.dll,SetSuspendState 0,1,0''
                  else ''systemctl suspend''))"

definition perform_system_action :: "action \<Rightarrow> app \<Rightarrow> app" where
  "perform_system_action action_type s =
     s\<lparr>os_system_calls := os_system_calls s @ [system_command (os_windows s) action_type]\<rparr>"

text \<open>
  \<open>log_event\<close> has no exception handler: when \<open>open\<close> or \<open>write\<close> fails, the
  \<open>OSError\<close> leaves the method.
\<close>

definition log_event :: "message \<Rightarrow> app \<Rightarrow> outcome \<times> app" where
  "log_event message s =
     (if \<not> logging_enable (settings s) then (Returned, s)
      else if \<not> log_writable s then (Raised OSError, s)
      else (Returned, s\<lparr>log_file := log_file s @ [(clock s, message)]\<rparr>))"

definition showMessage :: "message \<Rightarrow> message \<Rightarrow> icon \<Rightarrow> int \<Rightarrow> app \<Rightarrow> app" where
  "showMessage title msg ic ms s =
     s\<lparr>tray_messages := tray_messages s @ [(title, msg, ic, ms)]\<rparr>"

subsection \<open>\<open>schedule_action\<close>\<close>

text \<open>
  \<open>delay\<close> is \<open>delay_seconds\<close> in milliseconds. The source starts the timer with
  \<open>int(delay_seconds * 1000)\<close>, a float product; the model stores the exact difference.
\<close>

definition schedule_action :: "action \<Rightarrow> app \<Rightarrow> outcome \<times> app" where
  "schedule_action action_type s =
     (let scheduled_datetime = datetime_picker s;
          current_time = clock s;
          delay = scheduled_datetime - current_time
      in if delay \<le> 0 then
           (Returned,
            s\<lparr>info_label :=
                Literal ''The selected time is in the past. Please choose a future time.''\<rparr>)
         else
           let timer_id = last_timer_id s + 1;
               timer = length (timers s);
               s1 = s\<lparr>last_timer_id := timer_id,
                      timers := timers s @
                        [\<lparr>single_shot = True, interval = delay, active = True, slot = timer_id\<rparr>]\<rparr>;
               s2 = s1\<lparr>scheduled_events :=
                        AList.update timer_id (timer, action_type, scheduled_datetime)
                          (scheduled_events s1)\<rparr>
           in and_then (log_event (ScheduledAt action_type scheduled_datetime) s2)
                (\<lambda>s3. let msg = ScheduledInfo action_type scheduled_datetime
                                   (length (scheduled_events s3))
                       in (Returned,
                           showMessage (Literal ''Action Scheduled'') msg Information 3000
                             (s3\<lparr>info_label := msg\<rparr>))))"

subsection \<open>\<open>execute_action\<close> and \<open>cancel_event\<close>\<close>

definition execute_action :: "int \<Rightarrow> app \<Rightarrow> outcome \<times> app" where
  "execute_action timer_id s =
     (case map_of (scheduled_events s) timer_id of
        None \<Rightarrow> (Returned, s)
      | Some (timer, action_type, scheduled_datetime) \<Rightarrow>
          let s1 = s\<lparr>scheduled_events := AList.delete timer_id (scheduled_events s)\<rparr>;
              s2 = perform_system_action action_type s1
          in and_then (log_event (ExecutedAt action_type (clock s2)) s2)
               (\<lambda>s3. let remaining = length (scheduled_events s3);
                          msg = (if remaining > 0
                                 then ExecutedRemain action_type (clock s3) remaining
                                 else ExecutedNoMore action_type (clock s3))
                      in (Returned,
                          showMessage (ActionExecutedTitle action_type) msg Information 3000
                            (s3\<lparr>info_label := msg\<rparr>))))"

definition cancel_event :: "int \<Rightarrow> bool \<Rightarrow> app \<Rightarrow> outcome \<times> app" where
  "cancel_event timer_id user_triggered s =
     (case map_of (scheduled_events s) timer_id of
        None \<Rightarrow> (Returned, s)
      | Some (timer, action_type, scheduled_datetime) \<Rightarrow>
          let s1 = (if isActive timer s then stop timer s else s);
              s2 = s1\<lparr>scheduled_events := AList.delete timer_id (scheduled_events s1)\<rparr>;
              msg = CanceledAt action_type scheduled_datetime user_triggered;
              s3 = s2\<lparr>info_label := msg\<rparr>
          in and_then (log_event msg s3)
               (\<lambda>s4. (Returned,
                       showMessage (Literal ''Action Canceled'') msg Information 3000 s4)))"

subsection \<open>\<open>PreActionDialog\<close>\<close>

definition PreActionDialog :: "action \<Rightarrow> int \<Rightarrow> pre_action_dialog" where
  "PreActionDialog action_type timeout =
     \<lparr>dlg_action_type = action_type, dlg_timeout = timeout,
      dlg_text = WillPerformIn action_type timeout,
      close_timer_active = True, remaining_time = timeout, user_canceled = False,
      dlg_result = None\<rparr>"

definition on_timeout :: "pre_action_dialog \<Rightarrow> pre_action_dialog" where
  "on_timeout d =
     (let d1 = d\<lparr>remaining_time := remaining_time d - 1\<rparr>
      in if remaining_time d1 \<le> 0
         then d1\<lparr>close_timer_active := False, dlg_result := Some Accepted\<rparr>
         else d1\<lparr>dlg_text := WillPerformIn (dlg_action_type d1) (remaining_time d1)\<rparr>)"

text \<open>
  \<open>reject\<close> overrides \<open>QDialog.reject\<close>: it sets the flag and lets \<open>QDialog\<close> close the
  dialog. It does not stop \<open>close_timer\<close> (\<open>on_timeout\<close> does, before it accepts).
\<close>

definition reject :: "pre_action_dialog \<Rightarrow> pre_action_dialog" where
  "reject d = d\<lparr>user_canceled := True, dlg_result := Some Rejected\<rparr>"

text \<open>
  A click on ``Cancel this Action''. The source creates the button with \<open>addButton\<close>
  and connects nothing to it; \<open>QMessageBox\<close> answers the click of one of its buttons by
  closing the box with \<open>done\<close>. Neither \<open>reject\<close> nor any other method of the source
  runs: \<open>user_canceled\<close> and \<open>close_timer\<close> are as they were.
\<close>

definition click_cancel_button :: "pre_action_dialog \<Rightarrow> pre_action_dialog" where
  "click_cancel_button d = d\<lparr>dlg_result := Some Rejected\<rparr>"

text \<open>
  What can happen to the dialog while it is open: its one-second \<open>close_timer\<close> fires
  (\<open>Tick\<close>), the user clicks the button (\<open>ClickCancel\<close>), or Qt calls \<open>reject\<close>
  (\<open>CallReject\<close>: the source never calls it; \<open>QDialog\<close> does when the window of the
  dialog is closed).
\<close>

datatype dialog_event = Tick | ClickCancel | CallReject

text \<open>
  \<open>dialog.exec_()\<close> returns once the dialog has been closed. It is run on the events the
  dialog receives; when they end before the dialog is closed, the result is a dialog whose
  \<open>dlg_result\<close> is still \<open>None\<close>: \<open>exec_\<close> has not returned.
\<close>

fun exec_dialog :: "dialog_event list \<Rightarrow> pre_action_dialog \<Rightarrow> pre_action_dialog" where
  "exec_dialog [] d = d"
| "exec_dialog (e # es) d =
     (if dlg_result d \<noteq> None then d
      else exec_dialog es
             (case e of
                Tick \<Rightarrow> on_timeout d
              | ClickCancel \<Rightarrow> click_cancel_button d
              | CallReject \<Rightarrow> reject d))"

subsection \<open>\<open>prepare_for_action\<close>\<close>

text \<open>The two branches after \<open>dialog.exec_()\<close> has returned.\<close>

definition after_exec :: "pre_action_dialog \<Rightarrow> int \<Rightarrow> app \<Rightarrow> outcome \<times> app" where
  "after_exec dialog timer_id s =
     (if user_canceled dialog then cancel_event timer_id True s
      else execute_action timer_id s)"

definition prepare_for_action :: "dialog_event list \<Rightarrow> int \<Rightarrow> app \<Rightarrow> outcome \<times> app" where
  "prepare_for_action evs timer_id s =
     (case map_of (scheduled_events s) timer_id of
        None \<Rightarrow> (Returned, s)
      | Some (timer, action_type, scheduled_datetime) \<Rightarrow>
          if \<not> notifications_enable (settings s) then execute_action timer_id s
          else
            let notify_seconds = notifications_seconds_before (settings s);
                s1 = showMessage (Literal ''Action About to Happen'')
                       (WillOccurIn action_type notify_seconds) Warning 5000 s;
                dialog = exec_dialog evs (PreActionDialog action_type notify_seconds)
            in if dlg_result dialog = None then (Showing dialog, s1)
               else after_exec dialog timer_id s1)"

text \<open>
  The \<open>timeout\<close> signal of a timer of the store: a stopped timer emits nothing; a
  single-shot timer is stopped before its slot runs.
\<close>

definition timer_timeout :: "nat \<Rightarrow> dialog_event list \<Rightarrow> app \<Rightarrow> outcome \<times> app" where
  "timer_timeout timer evs s =
     (if isActive timer s then
        let t = timers s ! timer;
            s1 = (if single_shot t then stop timer s else s)
        in prepare_for_action evs (slot t) s1
      else (Returned, s))"

subsection \<open>\<open>cancel_all_scheduled_events\<close>\<close>

text \<open>The body of the \<open>for\<close> loop, over the snapshot \<open>list(self.scheduled_events.items())\<close>.\<close>

fun cancel_loop :: "(int \<times> nat \<times> action \<times> datetime) list \<Rightarrow> app \<Rightarrow> outcome \<times> app" where
  "cancel_loop [] s = (Returned, s)"
| "cancel_loop ((timer_id, timer, action_type, scheduled_datetime) # rest) s =
     (let s1 = (if isActive timer s then stop timer s else s);
          s2 = s1\<lparr>scheduled_events := AList.delete timer_id (scheduled_events s1)\<rparr>
      in and_then (log_event (CanceledAt action_type scheduled_datetime False) s2)
           (cancel_loop rest))"

definition cancel_all_scheduled_events :: "app \<Rightarrow> outcome \<times> app" where
  "cancel_all_scheduled_events s =
     (if scheduled_events s = [] then
        (Returned, s\<lparr>info_label := Literal ''No events to cancel.''\<rparr>)
      else
        and_then (cancel_loop (scheduled_events s) s)
          (\<lambda>s1. (Returned,
                  showMessage (Literal ''All Canceled'')
                    (Literal ''All scheduled events have been canceled.'') Information 3000
                    (s1\<lparr>info_label := Literal ''All scheduled events have been canceled.''\<rparr>))))"

subsection \<open>\<open>get_system_idle_time_seconds\<close> and \<open>check_inactivity\<close>\<close>

text \<open>
  What the platform answers to the idle probe: not Windows, \<open>GetLastInputInfo\<close> failed,
  or the tick count and the time of the last input, in milliseconds.
\<close>

datatype idle_probe = NotWindows | ProbeFailed | LastInput int int

definition get_system_idle_time_seconds :: "idle_probe \<Rightarrow> real" where
  "get_system_idle_time_seconds p =
     (case p of
        LastInput tick_count dwTime \<Rightarrow> real_of_int (tick_count - dwTime) / 1000
      | ProbeFailed \<Rightarrow> 0
      | NotWindows \<Rightarrow> 0)"

definition check_inactivity :: "idle_probe \<Rightarrow> app \<Rightarrow> outcome \<times> app" where
  "check_inactivity p s =
     (let auto_sleep_enabled = auto_sleep_enable (settings s)
      in if \<not> auto_sleep_enabled then (Returned, s)
         else
           let timeout_minutes = auto_sleep_timeout_minutes (settings s);
               inactivity_threshold = real_of_int timeout_minutes * 60;
               idle_seconds = get_system_idle_time_seconds p
           in if idle_seconds \<ge> inactivity_threshold
              then (Returned, perform_system_action Sleep s)
              else (Returned, s))"

subsection \<open>The event loop\<close>

text \<open>
  The slots Qt can call and the changes of the surroundings. \<open>dialog.exec_()\<close> runs
  an event loop of its own, in which any of these may run before \<open>exec_\<close> returns; to
  cover that, the code after \<open>exec_\<close> is also an event (\<open>DialogReturned\<close>), which may
  follow a \<open>TimerTimeout\<close> that left its dialog on screen after any other events.
\<close>

datatype event =
    ClickSchedule action
  | TimerTimeout nat "dialog_event list"
  | DialogReturned pre_action_dialog int
  | InactivityTimeout idle_probe
  | ClickCancelAll
  | EditDateTime datetime
  | ClockAdvance datetime
  | SettingsSaved config
  | LogWritable bool

definition dispatch :: "event \<Rightarrow> app \<Rightarrow> outcome \<times> app" where
  "dispatch e s =
     (case e of
        ClickSchedule action_type \<Rightarrow> schedule_action action_type s
      | TimerTimeout timer evs \<Rightarrow> timer_timeout timer evs s
      | DialogReturned dialog timer_id \<Rightarrow> after_exec dialog timer_id s
      | InactivityTimeout p \<Rightarrow> check_inactivity p s
      | ClickCancelAll \<Rightarrow> cancel_all_scheduled_events s
      | EditDateTime t \<Rightarrow> (Returned, s\<lparr>datetime_picker := t\<rparr>)
      | ClockAdvance t \<Rightarrow> (Returned, s\<lparr>clock := t\<rparr>)
      | SettingsSaved cfg \<Rightarrow> (Returned, s\<lparr>settings := cfg\<rparr>)
      | LogWritable b \<Rightarrow> (Returned, s\<lparr>log_writable := b\<rparr>))"

fun run :: "event list \<Rightarrow> app \<Rightarrow> app" where
  "run [] s = s"
| "run (e # es) s = run es (snd (dispatch e s))"

subsection \<open>Relations between states, used to state and prove the properties\<close>

text \<open>
  \<open>shrinks s s'\<close>: from \<open>s\<close> to \<open>s'\<close> no event was added and no identifier was
  assigned; events may have been removed, timers may have been stopped.
\<close>

definition shrinks :: "app \<Rightarrow> app \<Rightarrow> bool" where
  "shrinks s s' \<longleftrightarrow>
     last_timer_id s' = last_timer_id s \<and>
     (\<exists>ks. scheduled_events s' = filter (\<lambda>p. fst p \<notin> ks) (scheduled_events s)) \<and>
     length (timers s') = length (timers s) \<and>
     map slot (timers s') = map slot (timers s) \<and>
     (\<forall>r. isActive r s' \<longrightarrow> isActive r s)"

text \<open>
  What holds of the registry in every state the event loop can reach: the keys are
  distinct (it is a \<open>dict\<close>), every key was assigned by \<open>schedule_action\<close>, and the
  timer stored with a key is the one whose slot carries that key.
\<close>

definition registry_ok :: "app \<Rightarrow> bool" where
  "registry_ok s \<longleftrightarrow>
     0 \<le> last_timer_id s \<and> distinct (event_ids s) \<and>
     (\<forall>(k, r, a, t) \<in> set (scheduled_events s).
        0 < k \<and> k \<le> last_timer_id s \<and> r < length (timers s) \<and> slot (timers s ! r) = k)"

text \<open>
  \<open>schedule_action\<close> returns nothing: the identifier it assigns shows as the key that
  is new in \<open>scheduled_events\<close>. \<open>assigned_ids\<close> lists these keys along a run of the
  event loop, in the order of their assignment.
\<close>

definition new_ids :: "app \<Rightarrow> app \<Rightarrow> int list" where
  "new_ids s s' = filter (\<lambda>k. k \<notin> set (event_ids s)) (event_ids s')"

fun assigned_ids :: "event list \<Rightarrow> app \<Rightarrow> int list" where
  "assigned_ids [] s = []"
| "assigned_ids (e # es) s =
     new_ids s (snd (dispatch e s)) @ assigned_ids es (snd (dispatch e s))"

subsection \<open>Concrete configurations and runs\<close>

definition boot :: "config \<Rightarrow> app" where
  "boot cfg = SchedulerApp_init cfg 0 True True"

definition notify_config :: config where
  "notify_config = default_config\<lparr>notifications_enable := True, notifications_seconds_before := 3\<rparr>"

definition auto_sleep_config :: config where
  "auto_sleep_config =
     default_config\<lparr>notifications_enable := True, auto_sleep_enable := True,
                    auto_sleep_timeout_minutes := 1\<rparr>"

definition logging_config :: config where
  "logging_config = default_config\<lparr>logging_enable := True\<rparr>"

definition shutdown_in_5s :: "event list" where
  "shutdown_in_5s = [EditDateTime 5000, ClickSchedule Shutdown]"

definition restart_in_2s :: "event list" where
  "restart_in_2s = [EditDateTime 2000, ClickSchedule Restart]"

definition two_events :: "event list" where
  "two_events = [EditDateTime 5000, ClickSchedule Shutdown, ClickSchedule Restart]"

definition executed_then_rescheduled :: "event list" where
  "executed_then_rescheduled =
     [EditDateTime 5000, ClickSchedule Shutdown, TimerTimeout 0 [], ClickSchedule Restart]"

section \<open>Auxiliary facts\<close>

subsection \<open>Sequencing and logging\<close>

lemma and_then_Returned [simp]: "and_then (Returned, s) k = k s"
  by (simp add: and_then_def)

lemma and_then_Raised [simp]: "and_then (Raised e, s) k = (Raised e, s)"
  by (simp add: and_then_def)

lemma and_then_fst_Returned: "fst r = Returned \<Longrightarrow> and_then r k = k (snd r)"
  by (simp add: and_then_def)

lemma and_then_not_Returned: "fst r \<noteq> Returned \<Longrightarrow> and_then r k = r"
  by (cases "fst r") (simp_all add: and_then_def)

lemma log_event_cases:
  "log_event m s = (Returned, s) \<or> log_event m s = (Raised OSError, s) \<or>
   log_event m s = (Returned, s\<lparr>log_file := log_file s @ [(clock s, m)]\<rparr>)"
  by (simp add: log_event_def)

subsection \<open>Association lists and timers\<close>

lemma delete_absent: "map_of al k = None \<Longrightarrow> AList.delete k al = al"
  by (simp add: map_of_eq_None_iff)

lemma delete_as_filter: "AList.delete k al = filter (\<lambda>p. fst p \<notin> {k}) al"
  by (induction al) (auto simp: AList.delete_eq)

lemma update_fresh: "k \<notin> fst ` set al \<Longrightarrow> AList.update k v al = al @ [(k, v)]"
  by (induction al) auto

lemma stop_fields [simp]:
  "scheduled_events (stop r s) = scheduled_events s"
  "last_timer_id (stop r s) = last_timer_id s"
  "os_system_calls (stop r s) = os_system_calls s"
  "settings (stop r s) = settings s"
  "os_windows (stop r s) = os_windows s"
  "length (timers (stop r s)) = length (timers s)"
  by (simp_all add: stop_def)

lemma stop_slots [simp]: "map slot (timers (stop r s)) = map slot (timers s)"
proof -
  have "slot (timers (stop r s) ! i) = slot (timers s ! i)" if "i < length (timers s)" for i
    using that by (cases "i = r") (simp_all add: stop_def)
  then show ?thesis
    by (simp add: list_eq_iff_nth_eq stop_def)
qed

lemma isActive_stop: "isActive r' (stop r s) \<longleftrightarrow> r' \<noteq> r \<and> isActive r' s"
  by (cases "r' = r") (auto simp: isActive_def stop_def)

subsection \<open>What \<open>execute_action\<close>, \<open>cancel_event\<close> and \<open>schedule_action\<close> change\<close>

lemma execute_action_fields:
  "scheduled_events (snd (execute_action timer_id s)) = AList.delete timer_id (scheduled_events s)"
  "last_timer_id (snd (execute_action timer_id s)) = last_timer_id s"
  "timers (snd (execute_action timer_id s)) = timers s"
  "settings (snd (execute_action timer_id s)) = settings s"
  "os_windows (snd (execute_action timer_id s)) = os_windows s"
  "os_system_calls (snd (execute_action timer_id s)) =
     os_system_calls s @
       (case map_of (scheduled_events s) timer_id of None \<Rightarrow> []
        | Some (timer, action_type, dt) \<Rightarrow> [system_command (os_windows s) action_type])"
  "fst (execute_action timer_id s) \<noteq> Showing d"
proof -
  let ?P = "\<lambda>r. scheduled_events (snd r) = AList.delete timer_id (scheduled_events s) \<and>
     last_timer_id (snd r) = last_timer_id s \<and> timers (snd r) = timers s \<and>
     settings (snd r) = settings s \<and> os_windows (snd r) = os_windows s \<and>
     os_system_calls (snd r) = os_system_calls s @
       (case map_of (scheduled_events s) timer_id of None \<Rightarrow> []
        | Some (timer, action_type, dt) \<Rightarrow> [system_command (os_windows s) action_type]) \<and>
     fst r \<noteq> Showing d"
  have "?P (execute_action timer_id s)"
  proof (cases "map_of (scheduled_events s) timer_id")
    case None
    then show ?thesis by (simp add: execute_action_def delete_absent)
  next
    case (Some v)
    obtain timer action_type dt where v: "v = (timer, action_type, dt)" by (cases v) auto
    show ?thesis
      using log_event_cases [of "ExecutedAt action_type (clock s)"
          "perform_system_action action_type
             (s\<lparr>scheduled_events := AList.delete timer_id (scheduled_events s)\<rparr>)"]
      by (auto simp: execute_action_def Some v Let_def perform_system_action_def showMessage_def)
  qed
  then show
    "scheduled_events (snd (execute_action timer_id s)) = AList.delete timer_id (scheduled_events s)"
    "last_timer_id (snd (execute_action timer_id s)) = last_timer_id s"
    "timers (snd (execute_action timer_id s)) = timers s"
    "settings (snd (execute_action timer_id s)) = settings s"
    "os_windows (snd (execute_action timer_id s)) = os_windows s"
    "os_system_calls (snd (execute_action timer_id s)) =
       os_system_calls s @
         (case map_of (scheduled_events s) timer_id of None \<Rightarrow> []
          | Some (timer, action_type, dt) \<Rightarrow> [system_command (os_windows s) action_type])"
    "fst (execute_action timer_id s) \<noteq> Showing d"
    by simp_all
qed

lemma cancel_event_fields:
  "scheduled_events (snd (cancel_event timer_id u s)) = AList.delete timer_id (scheduled_events s)"
  "last_timer_id (snd (cancel_event timer_id u s)) = last_timer_id s"
  "settings (snd (cancel_event timer_id u s)) = settings s"
  "os_windows (snd (cancel_event timer_id u s)) = os_windows s"
  "os_system_calls (snd (cancel_event timer_id u s)) = os_system_calls s"
  "fst (cancel_event timer_id u s) \<noteq> Showing d"
  "timers (snd (cancel_event timer_id u s)) =
     (case map_of (scheduled_events s) timer_id of None \<Rightarrow> timers s
      | Some (timer, action_type, dt) \<Rightarrow>
          if isActive timer s then timers (stop timer s) else timers s)"
proof -
  let ?P = "\<lambda>r. scheduled_events (snd r) = AList.delete timer_id (scheduled_events s) \<and>
     last_timer_id (snd r) = last_timer_id s \<and>
     settings (snd r) = settings s \<and> os_windows (snd r) = os_windows s \<and>
     os_system_calls (snd r) = os_system_calls s \<and> fst r \<noteq> Showing d \<and>
     timers (snd r) =
     (case map_of (scheduled_events s) timer_id of None \<Rightarrow> timers s
      | Some (timer, action_type, dt) \<Rightarrow>
          if isActive timer s then timers (stop timer s) else timers s)"
  have "?P (cancel_event timer_id u s)"
  proof (cases "map_of (scheduled_events s) timer_id")
    case None
    then show ?thesis by (simp add: cancel_event_def delete_absent)
  next
    case (Some v)
    obtain timer action_type dt where v: "v = (timer, action_type, dt)" by (cases v) auto
    let ?s1 = "if isActive timer s then stop timer s else s"
    show ?thesis
      using log_event_cases [of "CanceledAt action_type dt u"
          "?s1\<lparr>scheduled_events := AList.delete timer_id (scheduled_events ?s1),
                info_label := CanceledAt action_type dt u\<rparr>"]
      by (auto simp: cancel_event_def Some v Let_def showMessage_def)
  qed
  then show
  "scheduled_events (snd (cancel_event timer_id u s)) = AList.delete timer_id (scheduled_events s)"
  "last_timer_id (snd (cancel_event timer_id u s)) = last_timer_id s"
  "settings (snd (cancel_event timer_id u s)) = settings s"
  "os_windows (snd (cancel_event timer_id u s)) = os_windows s"
  "os_system_calls (snd (cancel_event timer_id u s)) = os_system_calls s"
  "fst (cancel_event timer_id u s) \<noteq> Showing d"
  "timers (snd (cancel_event timer_id u s)) =
     (case map_of (scheduled_events s) timer_id of None \<Rightarrow> timers s
      | Some (timer, action_type, dt) \<Rightarrow>
          if isActive timer s then timers (stop timer s) else timers s)"
    by simp_all
qed

lemma schedule_action_fields:
  assumes "clock s < datetime_picker s"
  shows
    "scheduled_events (snd (schedule_action a s)) =
       AList.update (last_timer_id s + 1) (length (timers s), a, datetime_picker s)
         (scheduled_events s)"
    "last_timer_id (snd (schedule_action a s)) = last_timer_id s + 1"
    "timers (snd (schedule_action a s)) =
       timers s @ [\<lparr>single_shot = True, interval = datetime_picker s - clock s,
                     active = True, slot = last_timer_id s + 1\<rparr>]"
    "os_system_calls (snd (schedule_action a s)) = os_system_calls s"
    "settings (snd (schedule_action a s)) = settings s"
    "fst (schedule_action a s) \<noteq> Showing d"
proof -
  let ?s2 = "s\<lparr>last_timer_id := last_timer_id s + 1,
        timers := timers s @ [\<lparr>single_shot = True, interval = datetime_picker s - clock s,
                     active = True, slot = last_timer_id s + 1\<rparr>],
        scheduled_events := AList.update (last_timer_id s + 1)
           (length (timers s), a, datetime_picker s) (scheduled_events s)\<rparr>"
  have *: "schedule_action a s =
     and_then (log_event (ScheduledAt a (datetime_picker s)) ?s2)
       (\<lambda>s3. (Returned,
           showMessage (Literal ''Action Scheduled'')
             (ScheduledInfo a (datetime_picker s) (length (scheduled_events s3))) Information 3000
             (s3\<lparr>info_label := ScheduledInfo a (datetime_picker s) (length (scheduled_events s3))\<rparr>)))"
    using assms by (simp add: schedule_action_def Let_def)
  show
    "scheduled_events (snd (schedule_action a s)) =
       AList.update (last_timer_id s + 1) (length (timers s), a, datetime_picker s)
         (scheduled_events s)"
    "last_timer_id (snd (schedule_action a s)) = last_timer_id s + 1"
    "timers (snd (schedule_action a s)) =
       timers s @ [\<lparr>single_shot = True, interval = datetime_picker s - clock s,
                     active = True, slot = last_timer_id s + 1\<rparr>]"
    "os_system_calls (snd (schedule_action a s)) = os_system_calls s"
    "settings (snd (schedule_action a s)) = settings s"
    "fst (schedule_action a s) \<noteq> Showing d"
    using log_event_cases [of "ScheduledAt a (datetime_picker s)" ?s2]
    by (auto simp: * showMessage_def)
qed

lemma absent_noop:
  assumes "k \<notin> set (event_ids s)"
  shows "prepare_for_action evs k s = (Returned, s)" "execute_action k s = (Returned, s)"
    "cancel_event k u s = (Returned, s)" "after_exec d k s = (Returned, s)"
proof -
  from assms have "map_of (scheduled_events s) k = None"
    by (simp add: event_ids_def map_of_eq_None_iff)
  then show "prepare_for_action evs k s = (Returned, s)" "execute_action k s = (Returned, s)"
    "cancel_event k u s = (Returned, s)" "after_exec d k s = (Returned, s)"
    by (simp_all add: prepare_for_action_def execute_action_def cancel_event_def after_exec_def)
qed

lemma cancel_event_stops:
  assumes "map_of (scheduled_events s) timer_id = Some (timer, action_type, dt)"
  shows "\<not> isActive timer (snd (cancel_event timer_id u s))"
proof -
  have "isActive timer (snd (cancel_event timer_id u s)) \<longleftrightarrow>
        timer < length (timers (snd (cancel_event timer_id u s))) \<and>
        active (timers (snd (cancel_event timer_id u s)) ! timer)"
    by (simp add: isActive_def)
  also have "\<dots> \<longleftrightarrow> False"
    using isActive_stop [of timer timer s]
    by (auto simp: cancel_event_fields assms isActive_def)
  finally show ?thesis by simp
qed

subsection \<open>Every slot but a successful \<open>schedule_action\<close> shrinks the state\<close>

lemma shrinksI:
  assumes "last_timer_id s' = last_timer_id s"
    and "scheduled_events s' = filter (\<lambda>p. fst p \<notin> ks) (scheduled_events s)"
    and "timers s' = timers s \<or> timers s' = timers (stop r s)"
  shows "shrinks s s'"
proof -
  have "isActive r' s' \<longrightarrow> isActive r' s" for r'
    using assms(3) isActive_stop [of r' r s] by (auto simp: isActive_def)
  moreover have "length (timers s') = length (timers s)" "map slot (timers s') = map slot (timers s)"
    using assms(3) by auto
  ultimately show ?thesis
    using assms(1,2) unfolding shrinks_def by blast
qed

lemma shrinks_refl: "shrinks s s"
  by (rule shrinksI [where ks = "{}"]) simp_all

lemma shrinks_trans:
  assumes "shrinks s s'" and "shrinks s' s''"
  shows "shrinks s s''"
proof -
  from assms obtain ks ks' where
    "scheduled_events s' = filter (\<lambda>p. fst p \<notin> ks) (scheduled_events s)"
    "scheduled_events s'' = filter (\<lambda>p. fst p \<notin> ks') (scheduled_events s')"
    unfolding shrinks_def by blast
  then have "scheduled_events s'' = filter (\<lambda>p. fst p \<notin> ks \<union> ks') (scheduled_events s)"
    by (simp add: conj_commute)
  then have e: "\<exists>ks. scheduled_events s'' = filter (\<lambda>p. fst p \<notin> ks) (scheduled_events s)"
    by blast
  have "last_timer_id s'' = last_timer_id s" "length (timers s'') = length (timers s)"
    "map slot (timers s'') = map slot (timers s)" "\<forall>r. isActive r s'' \<longrightarrow> isActive r s"
    using assms by (simp_all add: shrinks_def)
  with e show ?thesis
    by (simp add: shrinks_def)
qed

lemma shrinks_and_then:
  assumes "shrinks s (snd r)" and "\<And>s'. shrinks s' (snd (k s'))"
  shows "shrinks s (snd (and_then r k))"
proof (cases "fst r = Returned")
  case True
  then have "and_then r k = k (snd r)" by (simp add: and_then_def)
  with assms show ?thesis by (auto intro: shrinks_trans)
next
  case False
  then have "and_then r k = r" by (simp add: and_then_def split: outcome.splits)
  with assms show ?thesis by simp
qed

lemma shrinks_same:
  assumes "last_timer_id s' = last_timer_id s" "scheduled_events s' = scheduled_events s"
    "timers s' = timers s"
  shows "shrinks s s'"
  by (rule shrinksI [where ks = "{}"]) (simp_all add: assms)

lemma shrinks_log_event: "shrinks s (snd (log_event m s))"
  using log_event_cases [of m s] by (auto intro!: shrinks_same)

lemma shrinks_execute_action: "shrinks s (snd (execute_action timer_id s))"
  by (rule shrinksI [where ks = "{timer_id}"])
     (simp_all add: execute_action_fields delete_as_filter)

lemma shrinks_cancel_event: "shrinks s (snd (cancel_event timer_id u s))"
  by (rule shrinksI [where ks = "{timer_id}" and
        r = "case map_of (scheduled_events s) timer_id of Some (timer, a, t) \<Rightarrow> timer | None \<Rightarrow> 0"])
     (simp_all add: cancel_event_fields delete_as_filter split: option.splits)

lemma shrinks_after_exec: "shrinks s (snd (after_exec dialog timer_id s))"
  by (simp add: after_exec_def shrinks_execute_action shrinks_cancel_event)

lemma shrinks_showMessage: "shrinks s (showMessage a b c d s)"
  by (rule shrinks_same) (simp_all add: showMessage_def)

lemma shrinks_stop: "shrinks s (stop r s)"
  by (rule shrinksI [where ks = "{}" and r = r]) simp_all

lemma shrinks_prepare_for_action: "shrinks s (snd (prepare_for_action evs timer_id s))"
proof (cases "map_of (scheduled_events s) timer_id")
  case None
  then show ?thesis by (simp add: prepare_for_action_def shrinks_refl)
next
  case (Some v)
  obtain timer action_type dt where v: "v = (timer, action_type, dt)" by (cases v) auto
  show ?thesis
    using shrinks_trans [OF shrinks_showMessage shrinks_after_exec]
    by (simp add: prepare_for_action_def Some v Let_def shrinks_execute_action shrinks_showMessage)
qed

lemma shrinks_timer_timeout: "shrinks s (snd (timer_timeout timer evs s))"
  using shrinks_trans [OF shrinks_stop shrinks_prepare_for_action]
  by (simp add: timer_timeout_def Let_def shrinks_refl shrinks_prepare_for_action)

lemma shrinks_cancel_loop: "shrinks s (snd (cancel_loop xs s))"
proof (induction xs arbitrary: s)
  case Nil
  show ?case by (simp add: shrinks_refl)
next
  case (Cons x xs)
  obtain timer_id timer action_type dt where x: "x = (timer_id, timer, action_type, dt)"
    by (cases x) auto
  let ?s1 = "if isActive timer s then stop timer s else s"
  let ?s2 = "?s1\<lparr>scheduled_events := AList.delete timer_id (scheduled_events ?s1)\<rparr>"
  have a: "shrinks s ?s2"
    by (rule shrinksI [where ks = "{timer_id}" and r = timer]) (simp_all add: delete_as_filter)
  have "shrinks ?s2 (snd (and_then (log_event (CanceledAt action_type dt False) ?s2) (cancel_loop xs)))"
    using log_event_cases [of "CanceledAt action_type dt False" ?s2]
  proof (elim disjE)
    assume "log_event (CanceledAt action_type dt False) ?s2 = (Returned, ?s2)"
    then show ?thesis using Cons.IH [of ?s2] by simp
  next
    assume "log_event (CanceledAt action_type dt False) ?s2 = (Raised OSError, ?s2)"
    then show ?thesis by (simp add: shrinks_refl)
  next
    let ?s3 = "?s2\<lparr>log_file := log_file ?s2 @ [(clock ?s2, CanceledAt action_type dt False)]\<rparr>"
    assume l: "log_event (CanceledAt action_type dt False) ?s2 = (Returned, ?s3)"
    have "shrinks ?s2 ?s3" by (rule shrinks_same) simp_all
    from shrinks_trans [OF this Cons.IH [of ?s3]] show ?thesis
      by (simp only: l and_then_Returned)
  qed
  with a show ?case
    by (simp only: x cancel_loop.simps Let_def) (rule shrinks_trans)
qed

lemma shrinks_cancel_all: "shrinks s (snd (cancel_all_scheduled_events s))"
proof (cases "scheduled_events s = []")
  case True
  then show ?thesis
    by (simp add: cancel_all_scheduled_events_def) (rule shrinks_same, simp_all)
next
  case False
  have "shrinks s' (showMessage a b c d (s'\<lparr>info_label := l\<rparr>))" for s' a b c d l
    by (rule shrinks_same) (simp_all add: showMessage_def)
  then show ?thesis
    using False
    by (simp add: cancel_all_scheduled_events_def shrinks_and_then shrinks_cancel_loop)
qed

lemma shrinks_check_inactivity: "shrinks s (snd (check_inactivity p s))"
  by (rule shrinks_same) (simp_all add: check_inactivity_def Let_def perform_system_action_def)

lemma schedule_action_past_shrinks:
  "\<not> clock s < datetime_picker s \<Longrightarrow> shrinks s (snd (schedule_action a s))"
  by (simp add: schedule_action_def) (rule shrinks_same, simp_all)

lemma dispatch_cases:
  "shrinks s (snd (dispatch e s)) \<or>
   (\<exists>a. e = ClickSchedule a \<and> clock s < datetime_picker s \<and>
        dispatch e s = schedule_action a s)"
proof (cases e)
  case (ClickSchedule a)
  then show ?thesis
    using schedule_action_past_shrinks [of s a] by (auto simp: dispatch_def)
next
  case (TimerTimeout r evs)
  then show ?thesis by (simp add: dispatch_def shrinks_timer_timeout)
next
  case (DialogReturned d i)
  then show ?thesis by (simp add: dispatch_def shrinks_after_exec)
next
  case (InactivityTimeout p)
  then show ?thesis by (simp add: dispatch_def shrinks_check_inactivity)
next
  case ClickCancelAll
  then show ?thesis by (simp add: dispatch_def shrinks_cancel_all)
next
  case (EditDateTime t)
  then show ?thesis by (simp add: dispatch_def) (rule shrinks_same, simp_all)
next
  case (ClockAdvance t)
  then show ?thesis by (simp add: dispatch_def) (rule shrinks_same, simp_all)
next
  case (SettingsSaved c)
  then show ?thesis by (simp add: dispatch_def) (rule shrinks_same, simp_all)
next
  case (LogWritable b)
  then show ?thesis by (simp add: dispatch_def) (rule shrinks_same, simp_all)
qed

lemma shrinks_ids: "shrinks s s' \<Longrightarrow> set (event_ids s') \<subseteq> set (event_ids s)"
  by (auto simp: shrinks_def event_ids_def)

subsection \<open>The registry invariant along a run\<close>

lemma registry_ok_init: "registry_ok (SchedulerApp_init cfg now w lw)"
  by (simp add: registry_ok_def SchedulerApp_init_def event_ids_def)

lemma registry_ok_shrinks:
  assumes "registry_ok s" and "shrinks s s'"
  shows "registry_ok s'"
proof -
  from assms(2) obtain ks where
    ev: "scheduled_events s' = filter (\<lambda>p. fst p \<notin> ks) (scheduled_events s)"
    and l: "last_timer_id s' = last_timer_id s"
    and n: "length (timers s') = length (timers s)"
    and sl: "map slot (timers s') = map slot (timers s)"
    unfolding shrinks_def by blast
  have slot_eq: "slot (timers s' ! r) = slot (timers s ! r)" if "r < length (timers s)" for r
  proof -
    have "map slot (timers s') ! r = map slot (timers s) ! r" by (simp add: sl)
    with that n show ?thesis by simp
  qed
  have "distinct (event_ids s')" "0 \<le> last_timer_id s'"
    using assms(1) by (simp_all add: registry_ok_def event_ids_def ev l distinct_map_filter)
  moreover have "0 < k \<and> k \<le> last_timer_id s' \<and> r < length (timers s') \<and> slot (timers s' ! r) = k"
    if "(k, r, a, t) \<in> set (scheduled_events s')" for k r a t
  proof -
    from that have "(k, r, a, t) \<in> set (scheduled_events s)" by (simp add: ev)
    with assms(1) have "0 < k \<and> k \<le> last_timer_id s \<and> r < length (timers s) \<and> slot (timers s ! r) = k"
      by (auto simp: registry_ok_def)
    then show ?thesis by (simp add: l n slot_eq)
  qed
  ultimately show ?thesis
    by (auto simp: registry_ok_def)
qed

lemma registry_ok_entry:
  "registry_ok s \<Longrightarrow> (k, r, a, t) \<in> set (scheduled_events s) \<Longrightarrow>
   0 < k \<and> k \<le> last_timer_id s \<and> r < length (timers s) \<and> slot (timers s ! r) = k"
  by (auto simp: registry_ok_def)

lemma ids_le_last: "registry_ok s \<Longrightarrow> k \<in> set (event_ids s) \<Longrightarrow> 0 < k \<and> k \<le> last_timer_id s"
  by (auto simp: registry_ok_def event_ids_def)

lemma schedule_action_appends:
  assumes "registry_ok s" and "clock s < datetime_picker s"
  shows "scheduled_events (snd (schedule_action a s)) =
           scheduled_events s @ [(last_timer_id s + 1, length (timers s), a, datetime_picker s)]"
proof -
  have "last_timer_id s + 1 \<notin> fst ` set (scheduled_events s)"
    using ids_le_last [OF assms(1), of "last_timer_id s + 1"] by (auto simp: event_ids_def)
  then show ?thesis
    by (simp add: schedule_action_fields [OF assms(2)] update_fresh)
qed

lemma registry_ok_schedule:
  assumes "registry_ok s" and "clock s < datetime_picker s"
  shows "registry_ok (snd (schedule_action a s))"
proof -
  let ?s' = "snd (schedule_action a s)"
  have ev: "scheduled_events ?s' =
           scheduled_events s @ [(last_timer_id s + 1, length (timers s), a, datetime_picker s)]"
    by (rule schedule_action_appends [OF assms])
  have "distinct (event_ids ?s')"
    using assms(1) ids_le_last [OF assms(1), of "last_timer_id s + 1"]
    by (auto simp: registry_ok_def event_ids_def ev)
  moreover have "0 \<le> last_timer_id ?s'"
    using assms(1) by (simp add: registry_ok_def schedule_action_fields(2) [OF assms(2)])
  moreover have "0 < k \<and> k \<le> last_timer_id ?s' \<and> r < length (timers ?s') \<and> slot (timers ?s' ! r) = k"
    if "(k, r, b, t) \<in> set (scheduled_events ?s')" for k r b t
  proof (cases "(k, r, b, t) \<in> set (scheduled_events s)")
    case True
    with assms(1) have "0 < k \<and> k \<le> last_timer_id s \<and> r < length (timers s) \<and> slot (timers s ! r) = k"
      by (auto simp: registry_ok_def)
    then show ?thesis
      by (simp add: schedule_action_fields [OF assms(2)] nth_append)
  next
    case False
    with that have "k = last_timer_id s + 1" "r = length (timers s)" by (simp_all add: ev)
    moreover have "0 \<le> last_timer_id s"
      using assms(1) by (simp add: registry_ok_def)
    ultimately show ?thesis
      by (simp add: schedule_action_fields [OF assms(2)])
  qed
  ultimately show ?thesis
    by (auto simp: registry_ok_def)
qed

lemma registry_ok_dispatch: "registry_ok s \<Longrightarrow> registry_ok (snd (dispatch e s))"
  using dispatch_cases [of s e]
  by (auto intro: registry_ok_shrinks registry_ok_schedule)

lemma registry_ok_run: "registry_ok s \<Longrightarrow> registry_ok (run es s)"
  by (induction es arbitrary: s) (simp_all add: registry_ok_dispatch)

lemma last_timer_id_dispatch: "last_timer_id s \<le> last_timer_id (snd (dispatch e s))"
  using dispatch_cases [of s e]
  by (auto simp: shrinks_def schedule_action_fields)

lemma last_timer_id_run: "last_timer_id s \<le> last_timer_id (run es s)"
proof (induction es arbitrary: s)
  case Nil
  show ?case by simp
next
  case (Cons e es)
  from last_timer_id_dispatch [of s e] Cons [of "snd (dispatch e s)"] show ?case by simp
qed

lemma new_ids_shrinks: "shrinks s s' \<Longrightarrow> new_ids s s' = []"
  using shrinks_ids [of s s'] by (auto simp: new_ids_def filter_empty_conv)

lemma new_ids_schedule:
  assumes "registry_ok s" and "clock s < datetime_picker s"
  shows "new_ids s (snd (schedule_action a s)) = [last_timer_id s + 1]"
  using ids_le_last [OF assms(1), of "last_timer_id s + 1"]
  by (auto simp: new_ids_def event_ids_def schedule_action_appends [OF assms] filter_empty_conv)

lemma new_ids_dispatch:
  assumes "registry_ok s"
  shows "new_ids s (snd (dispatch e s)) = [] \<or>
         (new_ids s (snd (dispatch e s)) = [last_timer_id s + 1] \<and>
          last_timer_id (snd (dispatch e s)) = last_timer_id s + 1)"
  using dispatch_cases [of s e] new_ids_schedule [OF assms]
  by (auto simp: new_ids_shrinks schedule_action_fields)

lemma assigned_ids_bounds:
  assumes "registry_ok s"
  shows "sorted_wrt (<) (assigned_ids es s) \<and>
         (\<forall>k \<in> set (assigned_ids es s). last_timer_id s < k \<and> k \<le> last_timer_id (run es s))"
  using assms
proof (induction es arbitrary: s)
  case Nil
  show ?case by simp
next
  case (Cons e es)
  let ?s' = "snd (dispatch e s)"
  have ok: "registry_ok ?s'" using Cons.prems by (rule registry_ok_dispatch)
  note IH = Cons.IH [OF ok]
  have mono: "last_timer_id s \<le> last_timer_id ?s'" "last_timer_id ?s' \<le> last_timer_id (run es ?s')"
    by (rule last_timer_id_dispatch, rule last_timer_id_run)
  from new_ids_dispatch [OF Cons.prems, of e] show ?case
  proof
    assume "new_ids s ?s' = []"
    with IH mono show ?thesis by auto
  next
    assume "new_ids s ?s' = [last_timer_id s + 1] \<and> last_timer_id ?s' = last_timer_id s + 1"
    with IH mono show ?thesis by (auto simp: sorted_wrt_append)
  qed
qed

lemma assigned_ids_append:
  "assigned_ids (es @ es') s = assigned_ids es s @ assigned_ids es' (run es s)"
  by (induction es arbitrary: s) simp_all

lemma absent_dispatch:
  assumes "registry_ok s" and "k \<le> last_timer_id s" and "k \<notin> set (event_ids s)"
  shows "k \<notin> set (event_ids (snd (dispatch e s)))"
  using dispatch_cases [of s e] assms shrinks_ids [of s "snd (dispatch e s)"]
  by (auto simp: event_ids_def schedule_action_appends)

lemma absent_run:
  assumes "registry_ok s" and "k \<le> last_timer_id s" and "k \<notin> set (event_ids s)"
  shows "k \<notin> set (event_ids (run es s))"
  using assms
proof (induction es arbitrary: s)
  case Nil
  then show ?case by simp
next
  case (Cons e es)
  have "k \<le> last_timer_id (snd (dispatch e s))"
    using Cons.prems(2) last_timer_id_dispatch [of s e] by simp
  with Cons.IH [of "snd (dispatch e s)"] Cons.prems show ?case
    by (simp add: registry_ok_dispatch absent_dispatch)
qed

lemma stopped_dispatch:
  assumes "r < length (timers s)" and "\<not> isActive r s"
  shows "r < length (timers (snd (dispatch e s))) \<and> \<not> isActive r (snd (dispatch e s))"
  using dispatch_cases [of s e] assms
  by (auto simp: shrinks_def isActive_def schedule_action_fields nth_append)

lemma stopped_run:
  assumes "r < length (timers s)" and "\<not> isActive r s"
  shows "\<not> isActive r (run es s)"
  using assms
proof (induction es arbitrary: s)
  case Nil
  then show ?case by simp
next
  case (Cons e es)
  from stopped_dispatch [OF Cons.prems, of e] Cons.IH [of "snd (dispatch e s)"]
  show ?case by simp
qed

subsection \<open>The dialog\<close>

lemma exec_dialog_closed: "dlg_result d \<noteq> None \<Longrightarrow> exec_dialog es d = d"
  by (cases es) simp_all

lemma exec_dialog_append: "exec_dialog (xs @ ys) d = exec_dialog ys (exec_dialog xs d)"
  by (induction xs arbitrary: d) (simp_all add: exec_dialog_closed)

lemma exec_dialog_ticks:
  assumes "dlg_result d = None" and "int k < remaining_time d"
  shows "dlg_result (exec_dialog (replicate k Tick) d) = None \<and>
         remaining_time (exec_dialog (replicate k Tick) d) = remaining_time d - int k \<and>
         user_canceled (exec_dialog (replicate k Tick) d) = user_canceled d"
  using assms
proof (induction k arbitrary: d)
  case 0
  then show ?case by simp
next
  case (Suc k)
  have "dlg_result (on_timeout d) = None" "remaining_time (on_timeout d) = remaining_time d - 1"
    "user_canceled (on_timeout d) = user_canceled d"
    using Suc.prems by (simp_all add: on_timeout_def Let_def)
  with Suc.IH [of "on_timeout d"] Suc.prems show ?case by simp
qed

lemma exec_dialog_last_tick:
  assumes "dlg_result d = None" and "remaining_time d \<le> 1"
  shows "exec_dialog (Tick # es) d =
           d\<lparr>remaining_time := remaining_time d - 1, close_timer_active := False,
             dlg_result := Some Accepted\<rparr>"
  using assms by (simp add: on_timeout_def Let_def exec_dialog_closed)

lemma exec_dialog_accept:
  assumes "dlg_result d = None" and "1 \<le> remaining_time d"
  shows "dlg_result (exec_dialog (replicate (nat (remaining_time d)) Tick @ es) d) = Some Accepted \<and>
         user_canceled (exec_dialog (replicate (nat (remaining_time d)) Tick @ es) d) = user_canceled d"
proof -
  define k where "k = nat (remaining_time d) - 1"
  then have n: "nat (remaining_time d) = k + 1" and k: "int k < remaining_time d"
    using assms(2) by simp_all
  let ?d = "exec_dialog (replicate k Tick) d"
  have "replicate (nat (remaining_time d)) Tick @ es = replicate k Tick @ Tick # es"
    by (simp add: n replicate_append_same)
  then have "exec_dialog (replicate (nat (remaining_time d)) Tick @ es) d = exec_dialog (Tick # es) ?d"
    by (simp only: exec_dialog_append)
  moreover have "dlg_result ?d = None" "remaining_time ?d \<le> 1" "user_canceled ?d = user_canceled d"
    using exec_dialog_ticks [OF assms(1) k] k_def assms(2) by simp_all
  ultimately show ?thesis
    by (simp add: exec_dialog_last_tick del: exec_dialog.simps)
qed

lemma exec_dialog_ticks_timer:
  assumes "dlg_result d = None" and "int k < remaining_time d"
  shows "close_timer_active (exec_dialog (replicate k Tick) d) = close_timer_active d"
  using assms
proof (induction k arbitrary: d)
  case 0
  then show ?case by simp
next
  case (Suc k)
  have "dlg_result (on_timeout d) = None" "remaining_time (on_timeout d) = remaining_time d - 1"
    "close_timer_active (on_timeout d) = close_timer_active d"
    using Suc.prems by (simp_all add: on_timeout_def Let_def)
  with Suc.IH [of "on_timeout d"] Suc.prems show ?case by simp
qed

lemma exec_dialog_click:
  assumes "dlg_result d = None" and "int k < remaining_time d"
  shows "dlg_result (exec_dialog (replicate k Tick @ ClickCancel # es) d) = Some Rejected \<and>
         user_canceled (exec_dialog (replicate k Tick @ ClickCancel # es) d) = user_canceled d"
  using exec_dialog_ticks [OF assms]
  by (simp add: exec_dialog_append click_cancel_button_def exec_dialog_closed)

lemma exec_dialog_reject:
  assumes "dlg_result d = None" and "int k < remaining_time d"
  shows "exec_dialog (replicate k Tick @ CallReject # es) d =
           reject (exec_dialog (replicate k Tick) d)"
  using exec_dialog_ticks [OF assms]
  by (simp add: exec_dialog_append reject_def exec_dialog_closed)

lemma prepare_for_action_notify:
  assumes "map_of (scheduled_events s) timer_id = Some (timer, action_type, dt)"
    and "notifications_enable (settings s)"
  shows "prepare_for_action evs timer_id s =
    (let n = notifications_seconds_before (settings s);
         s1 = showMessage (Literal ''Action About to Happen'') (WillOccurIn action_type n)
                Warning 5000 s;
         dialog = exec_dialog evs (PreActionDialog action_type n)
     in if dlg_result dialog = None then (Showing dialog, s1)
        else if user_canceled dialog then cancel_event timer_id True s1
        else execute_action timer_id s1)"
  using assms by (simp add: prepare_for_action_def after_exec_def Let_def)

lemma timer_timeout_fired:
  assumes "isActive timer s" and "slot (timers s ! timer) = timer_id"
  shows "timer_timeout timer evs s =
           prepare_for_action evs timer_id
             (if single_shot (timers s ! timer) then stop timer s else s)"
  using assms by (simp add: timer_timeout_def Let_def)

subsection \<open>The loop of \<open>cancel_all_scheduled_events\<close>\<close>

lemma cancel_loop_completes:
  assumes "\<not> logging_enable (settings s) \<or> log_writable s"
  shows "fst (cancel_loop xs s) = Returned \<and>
         scheduled_events (snd (cancel_loop xs s)) =
           filter (\<lambda>p. fst p \<notin> fst ` set xs) (scheduled_events s) \<and>
         os_system_calls (snd (cancel_loop xs s)) = os_system_calls s \<and>
         info_label (snd (cancel_loop xs s)) = info_label s \<and>
         tray_messages (snd (cancel_loop xs s)) = tray_messages s \<and>
         log_file (snd (cancel_loop xs s)) =
           log_file s @
             (if logging_enable (settings s)
              then map (\<lambda>(k, r, a, t). (clock s, CanceledAt a t False)) xs else []) \<and>
         (\<forall>(k, r, a, t) \<in> set xs. \<not> isActive r (snd (cancel_loop xs s)))"
  using assms
proof (induction xs arbitrary: s)
  case Nil
  show ?case by simp
next
  case (Cons x xs)
  obtain timer_id timer action_type dt where x: "x = (timer_id, timer, action_type, dt)"
    by (cases x) auto
  let ?s1 = "if isActive timer s then stop timer s else s"
  let ?s2 = "?s1\<lparr>scheduled_events := AList.delete timer_id (scheduled_events ?s1)\<rparr>"
  let ?m = "CanceledAt action_type dt False"
  let ?s3 = "if logging_enable (settings s)
             then ?s2\<lparr>log_file := log_file s @ [(clock s, ?m)]\<rparr> else ?s2"
  have f1: "settings ?s1 = settings s" "log_writable ?s1 = log_writable s"
    "clock ?s1 = clock s" "log_file ?s1 = log_file s" "info_label ?s1 = info_label s"
    "tray_messages ?s1 = tray_messages s" "os_system_calls ?s1 = os_system_calls s"
    "scheduled_events ?s1 = scheduled_events s"
    by (simp_all add: stop_def)
  have log: "log_event ?m ?s2 = (Returned, ?s3)"
    using Cons.prems by (auto simp: log_event_def f1)
  have step: "cancel_loop (x # xs) s = cancel_loop xs ?s3"
    by (simp only: x cancel_loop.simps Let_def log and_then_Returned)
  have f3: "settings ?s3 = settings s" "log_writable ?s3 = log_writable s"
    "clock ?s3 = clock s" "info_label ?s3 = info_label s"
    "tray_messages ?s3 = tray_messages s" "os_system_calls ?s3 = os_system_calls s"
    "scheduled_events ?s3 = AList.delete timer_id (scheduled_events s)"
    "log_file ?s3 = log_file s @ (if logging_enable (settings s) then [(clock s, ?m)] else [])"
    by (simp_all add: f1)
  have pre: "\<not> logging_enable (settings ?s3) \<or> log_writable ?s3"
    using Cons.prems by (simp only: f3)
  note IH = Cons.IH [OF pre]
  have off: "\<not> isActive timer ?s3"
    using isActive_stop [of timer timer s] by (auto simp: isActive_def)
  have "\<not> isActive timer (snd (cancel_loop xs ?s3))"
    using shrinks_cancel_loop [of ?s3 xs] off by (auto simp: shrinks_def)
  moreover have "filter (\<lambda>p. fst p \<notin> fst ` set xs) (AList.delete timer_id (scheduled_events s)) =
      filter (\<lambda>p. fst p \<notin> fst ` set (x # xs)) (scheduled_events s)"
    by (auto simp: delete_as_filter x intro: filter_cong)
  ultimately show ?case
    using IH unfolding step f3 by (simp add: x)
qed

lemma cancel_loop_returned:
  assumes "fst (cancel_loop xs s) = Returned"
  shows "scheduled_events (snd (cancel_loop xs s)) =
           filter (\<lambda>p. fst p \<notin> fst ` set xs) (scheduled_events s)"
  using assms
proof (induction xs arbitrary: s)
  case Nil
  show ?case by simp
next
  case (Cons x xs)
  obtain timer_id timer action_type dt where x: "x = (timer_id, timer, action_type, dt)"
    by (cases x) auto
  let ?s1 = "if isActive timer s then stop timer s else s"
  let ?s2 = "?s1\<lparr>scheduled_events := AList.delete timer_id (scheduled_events ?s1)\<rparr>"
  let ?m = "CanceledAt action_type dt False"
  have step: "cancel_loop (x # xs) s = and_then (log_event ?m ?s2) (cancel_loop xs)"
    by (simp only: x cancel_loop.simps Let_def)
  have ev: "scheduled_events (snd (log_event ?m ?s2)) = AList.delete timer_id (scheduled_events s)"
    using log_event_cases [of ?m ?s2] by auto
  have fl: "filter (\<lambda>p. fst p \<notin> fst ` set xs) (AList.delete timer_id (scheduled_events s)) =
      filter (\<lambda>p. fst p \<notin> fst ` set (x # xs)) (scheduled_events s)"
    by (auto simp: delete_as_filter x intro: filter_cong)
  from log_event_cases [of ?m ?s2] have "fst (log_event ?m ?s2) = Returned"
  proof (elim disjE)
    assume "log_event ?m ?s2 = (Raised OSError, ?s2)"
    with Cons.prems show ?thesis by (simp add: step)
  qed simp_all
  then have "cancel_loop (x # xs) s = cancel_loop xs (snd (log_event ?m ?s2))"
    unfolding step by (rule and_then_fst_Returned)
  with Cons.IH [of "snd (log_event ?m ?s2)"] Cons.prems show ?case
    by (simp only: ev fl)
qed

lemma cancel_loop_keeps_other_timers:
  assumes "\<forall>(k, r, a, t) \<in> set xs. \<forall>(k', r', a', t') \<in> set (scheduled_events s).
             r = r' \<longrightarrow> k = k'"
  shows "\<forall>(k', r', a', t') \<in> set (scheduled_events (snd (cancel_loop xs s))).
           timers (snd (cancel_loop xs s)) ! r' = timers s ! r'"
  using assms
proof (induction xs arbitrary: s)
  case Nil
  show ?case by simp
next
  case (Cons x xs)
  obtain timer_id timer action_type dt where x: "x = (timer_id, timer, action_type, dt)"
    by (cases x) auto
  let ?s1 = "if isActive timer s then stop timer s else s"
  let ?s2 = "?s1\<lparr>scheduled_events := AList.delete timer_id (scheduled_events ?s1)\<rparr>"
  let ?m = "CanceledAt action_type dt False"
  let ?s3 = "snd (log_event ?m ?s2)"
  have step: "cancel_loop (x # xs) s = and_then (log_event ?m ?s2) (cancel_loop xs)"
    by (simp only: x cancel_loop.simps Let_def)
  have ev: "scheduled_events ?s3 = AList.delete timer_id (scheduled_events s)"
    and tm: "timers ?s3 = timers ?s1"
    using log_event_cases [of ?m ?s2] by auto
  have sub: "set (scheduled_events ?s3) \<subseteq> set (scheduled_events s)"
    unfolding ev by (auto simp: delete_as_filter)
  have keep: "timers ?s3 ! r' = timers s ! r'"
    if "(k', r', a', t') \<in> set (scheduled_events ?s3)" for k' r' a' t'
  proof -
    from that have "(k', r', a', t') \<in> set (AList.delete timer_id (scheduled_events s))"
      unfolding ev .
    then have "k' \<noteq> timer_id" "(k', r', a', t') \<in> set (scheduled_events s)"
      by (auto simp: delete_as_filter)
    with Cons.prems have "r' \<noteq> timer" by (auto simp: x)
    then show ?thesis by (simp add: tm stop_def)
  qed
  show ?case
  proof (cases "fst (log_event ?m ?s2) = Returned")
    case True
    then have run: "cancel_loop (x # xs) s = cancel_loop xs ?s3"
      unfolding step by (rule and_then_fst_Returned)
    have "\<forall>(k, r, a, t) \<in> set xs. \<forall>(k', r', a', t') \<in> set (scheduled_events ?s3).
             r = r' \<longrightarrow> k = k'"
      using Cons.prems sub by fastforce
    from Cons.IH [OF this] have
      "\<forall>(k', r', a', t') \<in> set (scheduled_events (snd (cancel_loop xs ?s3))).
           timers (snd (cancel_loop xs ?s3)) ! r' = timers ?s3 ! r'" .
    moreover have "set (scheduled_events (snd (cancel_loop xs ?s3))) \<subseteq> set (scheduled_events ?s3)"
      using shrinks_cancel_loop [of ?s3 xs] by (auto simp: shrinks_def)
    ultimately show ?thesis
      unfolding run using keep by fastforce
  next
    case False
    then have "cancel_loop (x # xs) s = log_event ?m ?s2"
      unfolding step by (rule and_then_not_Returned)
    then show ?thesis
      using keep by (simp only: ) fast
  qed
qed

lemma cancel_all_keeps_other_timers:
  assumes "registry_ok s"
  shows "\<forall>(k, r, a, t) \<in> set (scheduled_events (snd (cancel_all_scheduled_events s))).
           isActive r (snd (cancel_all_scheduled_events s)) = isActive r s"
proof (cases "scheduled_events s = []")
  case True
  then show ?thesis by (simp add: cancel_all_scheduled_events_def)
next
  case False
  let ?r = "cancel_loop (scheduled_events s) s"
  have uniq: "\<forall>(k, r, a, t) \<in> set (scheduled_events s).
      \<forall>(k', r', a', t') \<in> set (scheduled_events s). r = r' \<longrightarrow> k = k'"
  proof -
    have "k = k'" if "(k, r, a, t) \<in> set (scheduled_events s)"
      "(k', r, a', t') \<in> set (scheduled_events s)" for k k' r a a' t t'
      using registry_ok_entry [OF assms that(1)] registry_ok_entry [OF assms that(2)] by simp
    then show ?thesis by fast
  qed
  note keep = cancel_loop_keeps_other_timers [OF uniq]
  have len: "length (timers (snd ?r)) = length (timers s)"
    using shrinks_cancel_loop [of s "scheduled_events s"] by (simp add: shrinks_def)
  have loop: "\<forall>(k, r, a, t) \<in> set (scheduled_events (snd ?r)). isActive r (snd ?r) = isActive r s"
    using keep len by (auto simp: isActive_def)
  have "scheduled_events (snd (and_then ?r k)) = scheduled_events (snd ?r) \<and>
        timers (snd (and_then ?r k)) = timers (snd ?r)"
    if "\<And>s'. scheduled_events (snd (k s')) = scheduled_events s' \<and> timers (snd (k s')) = timers s'"
    for k
    using that by (cases "fst ?r") (simp_all add: and_then_def)
  then have "scheduled_events (snd (cancel_all_scheduled_events s)) = scheduled_events (snd ?r) \<and>
        timers (snd (cancel_all_scheduled_events s)) = timers (snd ?r)"
    using False by (simp add: cancel_all_scheduled_events_def showMessage_def)
  with loop show ?thesis
    by (simp add: isActive_def)
qed

subsection \<open>Unfolding the model on concrete states\<close>

lemmas model_defs =
  boot_def shutdown_in_5s_def notify_config_def default_config_def SchedulerApp_init_def
  dispatch_def schedule_action_def execute_action_def cancel_event_def prepare_for_action_def
  after_exec_def timer_timeout_def cancel_all_scheduled_events_def check_inactivity_def
  get_system_idle_time_seconds_def log_event_def showMessage_def perform_system_action_def
  system_command_def isActive_def stop_def and_then_def event_ids_def
  PreActionDialog_def on_timeout_def reject_def click_cancel_button_def new_ids_def Let_def
  restart_in_2s_def two_events_def executed_then_rescheduled_def auto_sleep_config_def
  logging_config_def

section \<open>The claims\<close>

text \<open>
  The states of an event named by the specification are read off the program state:
  an event is \<^emph>\<open>Armed\<close> or \<^emph>\<open>PreNotifying\<close> while its identifier is a key of
  \<open>scheduled_events\<close> (Armed while its timer is active, PreNotifying while
  \<open>prepare_for_action\<close> shows the dialog, whose \<open>close_timer\<close> counts the lead time
  down), and it is \<^emph>\<open>Executed\<close> or \<^emph>\<open>Canceled\<close>
  once \<open>execute_action\<close> or \<open>cancel_event\<close> has deleted the key. A call of the
  ActionExecutor is one entry of \<open>os_system_calls\<close>. A state is reachable when it is
  \<open>run es (SchedulerApp_init cfg now w lw)\<close> for some events \<open>es\<close>.
\<close>

subsection \<open>C2: a request for a time that is not in the future\<close>

text \<open>
  C2. When the time chosen in the picker is not strictly after the current time,
  \<open>schedule_action\<close> returns after writing the message about the past time to the
  information label; the scheduled events, the identifier counter, the timers and every
  other field of the state are as before.
\<close>

theorem schedule_action_past_time:
  assumes "datetime_picker s \<le> clock s"
  shows "schedule_action action_type s =
           (Returned,
            s\<lparr>info_label :=
                Literal ''The selected time is in the past. Please choose a future time.''\<rparr>)"
  using assms by (simp add: schedule_action_def)

theorem schedule_action_past_time_witness:
  "datetime_picker (SchedulerApp_init default_config 1000 True True)
     \<le> clock (SchedulerApp_init default_config 1000 True True) \<and>
   schedule_action Shutdown (SchedulerApp_init default_config 1000 True True) =
     (Returned,
      (SchedulerApp_init default_config 1000 True True)
        \<lparr>info_label :=
           Literal ''The selected time is in the past. Please choose a future time.''\<rparr>)"
  using schedule_action_past_time [of "SchedulerApp_init default_config 1000 True True" Shutdown]
  by (simp add: SchedulerApp_init_def)

subsection \<open>C1: the countdown elapses, notifications disabled\<close>

text \<open>
  C1. In a reachable state, let an event be scheduled under \<open>timer_id\<close> and let its timer
  be running. When that timer fires while pre-action notifications are disabled, the
  entry of \<open>timer_id\<close> is deleted from \<open>scheduled_events\<close> (all other entries stay),
  \<open>os.system\<close> is called exactly once, with the command of the event's action, and no
  dialog is shown. This holds whether or not the log line that follows can be written.
\<close>

theorem timer_timeout_executes:
  fixes es0 :: "event list" and cfg :: config and now :: datetime and w lw :: bool
  defines "s \<equiv> run es0 (SchedulerApp_init cfg now w lw)"
  assumes "map_of (scheduled_events s) timer_id = Some (timer, action_type, scheduled_datetime)"
    and "isActive timer s"
    and "\<not> notifications_enable (settings s)"
  shows "scheduled_events (snd (timer_timeout timer evs s)) =
           AList.delete timer_id (scheduled_events s) \<and>
         timer_id \<notin> set (event_ids (snd (timer_timeout timer evs s))) \<and>
         os_system_calls (snd (timer_timeout timer evs s)) =
           os_system_calls s @ [system_command (os_windows s) action_type] \<and>
         (\<forall>d. fst (timer_timeout timer evs s) \<noteq> Showing d)"
proof -
  have "registry_ok s"
    unfolding s_def by (rule registry_ok_run [OF registry_ok_init])
  from registry_ok_entry [OF this map_of_SomeD [OF assms(2)]]
  have slot: "slot (timers s ! timer) = timer_id" by simp
  let ?s1 = "if single_shot (timers s ! timer) then stop timer s else s"
  have ev: "scheduled_events ?s1 = scheduled_events s" "settings ?s1 = settings s"
    "os_system_calls ?s1 = os_system_calls s" "os_windows ?s1 = os_windows s"
    by simp_all
  have "timer_timeout timer evs s = execute_action timer_id ?s1"
    using assms(2-4) by (simp add: timer_timeout_fired [OF assms(3) slot] prepare_for_action_def)
  moreover have "timer_id \<notin> fst ` set (AList.delete timer_id (scheduled_events s))"
    by (rule delete_notin_dom)
  ultimately show ?thesis
    using assms(2) by (simp add: execute_action_fields ev event_ids_def)
qed

theorem timer_timeout_executes_witness:
  "map_of (scheduled_events (run shutdown_in_5s (SchedulerApp_init default_config 0 True True))) 1 =
     Some (0, Shutdown, 5000) \<and>
   isActive 0 (run shutdown_in_5s (SchedulerApp_init default_config 0 True True)) \<and>
   \<not> notifications_enable
       (settings (run shutdown_in_5s (SchedulerApp_init default_config 0 True True))) \<and>
   scheduled_events (snd (timer_timeout 0 []
     (run shutdown_in_5s (SchedulerApp_init default_config 0 True True)))) = [] \<and>
   os_system_calls (snd (timer_timeout 0 []
     (run shutdown_in_5s (SchedulerApp_init default_config 0 True True)))) =
     [''shutdown /s /f /t 0'']"
  using timer_timeout_executes [where ?es0.0 = shutdown_in_5s and cfg = default_config
      and now = 0 and w = True and lw = True
      and timer_id = 1 and timer = 0 and action_type = Shutdown and scheduled_datetime = 5000
      and evs = "[]"]
  by (simp add: model_defs)

subsection \<open>C3: the countdown elapses, notifications enabled\<close>

text \<open>
  C3. In a reachable state, let an event be scheduled under \<open>timer_id\<close> with its timer
  running, let pre-action notifications be enabled and the lead time be at least one
  second. When the timer fires, the code does the following.
  \<^item> As long as fewer seconds than the lead time have passed on the dialog and the
    dialog has not been closed, the dialog is on screen with the remaining seconds, the
    event is still in \<open>scheduled_events\<close> and \<open>os.system\<close> has not been called
    (PreNotifying).
  \<^item> Once the lead time has passed, the entry is deleted and \<open>os.system\<close> has been
    called exactly once, with the command of the event's action (Executed).
  \<^item> When the user clicks ``Cancel this Action'' after any number of seconds smaller
    than the lead time, the dialog closes with \<open>user_canceled\<close> still unset, and
    \<open>prepare_for_action\<close> goes on to \<open>execute_action\<close>: the entry is deleted and
    \<open>os.system\<close> is called once. Here the code departs from the property, and from
    the docstrings of \<open>PreActionDialog\<close> and of \<open>reject\<close>, by which the click cancels.
  \<^item> Only when \<open>reject\<close> itself is called is the event cancelled: the entry is deleted
    and \<open>os.system\<close> is not called (Canceled).
\<close>

theorem pre_notification_click_executes:
  fixes es0 :: "event list" and cfg :: config and now :: datetime and w lw :: bool
  defines "s \<equiv> run es0 (SchedulerApp_init cfg now w lw)"
  defines "lead \<equiv> notifications_seconds_before (settings s)"
  assumes "map_of (scheduled_events s) timer_id = Some (timer, action_type, dt)"
    and "isActive timer s"
    and "notifications_enable (settings s)"
    and "1 \<le> lead"
  shows
    "(\<forall>k. int k < lead \<longrightarrow>
        (case fst (timer_timeout timer (replicate k Tick) s) of
           Showing d \<Rightarrow>
             dlg_action_type d = action_type \<and> remaining_time d = lead - int k \<and>
             \<not> user_canceled d
         | _ \<Rightarrow> False) \<and>
        map_of (scheduled_events (snd (timer_timeout timer (replicate k Tick) s))) timer_id =
          Some (timer, action_type, dt) \<and>
        os_system_calls (snd (timer_timeout timer (replicate k Tick) s)) = os_system_calls s) \<and>
     (\<forall>rest.
        timer_id \<notin> set (event_ids (snd (timer_timeout timer
           (replicate (nat lead) Tick @ rest) s))) \<and>
        os_system_calls (snd (timer_timeout timer (replicate (nat lead) Tick @ rest) s)) =
          os_system_calls s @ [system_command (os_windows s) action_type]) \<and>
     (\<forall>k rest. int k < lead \<longrightarrow>
        timer_id \<notin> set (event_ids (snd (timer_timeout timer
           (replicate k Tick @ ClickCancel # rest) s))) \<and>
        os_system_calls (snd (timer_timeout timer (replicate k Tick @ ClickCancel # rest) s)) =
          os_system_calls s @ [system_command (os_windows s) action_type]) \<and>
     (\<forall>k rest. int k < lead \<longrightarrow>
        timer_id \<notin> set (event_ids (snd (timer_timeout timer
           (replicate k Tick @ CallReject # rest) s))) \<and>
        os_system_calls (snd (timer_timeout timer (replicate k Tick @ CallReject # rest) s)) =
          os_system_calls s)"
proof -
  have "registry_ok s"
    unfolding s_def by (rule registry_ok_run [OF registry_ok_init])
  from registry_ok_entry [OF this map_of_SomeD [OF assms(3)]]
  have slot: "slot (timers s ! timer) = timer_id" by simp
  let ?s0 = "if single_shot (timers s ! timer) then stop timer s else s"
  let ?s1 = "showMessage (Literal ''Action About to Happen'') (WillOccurIn action_type lead)
               Warning 5000 ?s0"
  let ?D = "PreActionDialog action_type lead"
  have s0: "map_of (scheduled_events ?s0) timer_id = Some (timer, action_type, dt)"
    "notifications_enable (settings ?s0)" "notifications_seconds_before (settings ?s0) = lead"
    using assms(3,5) by (simp_all add: lead_def)
  have s1: "scheduled_events ?s1 = scheduled_events s" "os_system_calls ?s1 = os_system_calls s"
    "os_windows ?s1 = os_windows s"
    by (simp_all add: showMessage_def)
  have D: "dlg_result ?D = None" "remaining_time ?D = lead" "\<not> user_canceled ?D"
    "dlg_action_type ?D = action_type"
    by (simp_all add: PreActionDialog_def)
  have fired: "timer_timeout timer evs s =
      (if dlg_result (exec_dialog evs ?D) = None then (Showing (exec_dialog evs ?D), ?s1)
       else if user_canceled (exec_dialog evs ?D) then cancel_event timer_id True ?s1
       else execute_action timer_id ?s1)" for evs
    unfolding timer_timeout_fired [OF assms(4) slot] prepare_for_action_notify [OF s0(1,2)]
      s0(3) Let_def
    by (rule refl)
  have gone: "timer_id \<notin> set (map fst (AList.delete timer_id (scheduled_events s)))"
    using delete_notin_dom [of timer_id "scheduled_events s"] by simp
  have showing: "(case fst (timer_timeout timer (replicate k Tick) s) of
           Showing d \<Rightarrow> dlg_action_type d = action_type \<and> remaining_time d = lead - int k \<and>
             \<not> user_canceled d
         | _ \<Rightarrow> False) \<and>
        map_of (scheduled_events (snd (timer_timeout timer (replicate k Tick) s))) timer_id =
          Some (timer, action_type, dt) \<and>
        os_system_calls (snd (timer_timeout timer (replicate k Tick) s)) = os_system_calls s"
    if "int k < lead" for k
  proof -
    have k: "int k < remaining_time ?D" using that by (simp add: D)
    have "dlg_action_type (exec_dialog (replicate k Tick) d) = dlg_action_type d" for d
      by (induction k arbitrary: d) (simp_all add: on_timeout_def Let_def)
    with exec_dialog_ticks [OF D(1) k] show ?thesis
      by (simp add: fired s1 assms(3) D)
  qed
  have executes: "timer_id \<notin> set (event_ids (snd (timer_timeout timer
           (replicate (nat lead) Tick @ rest) s))) \<and>
        os_system_calls (snd (timer_timeout timer (replicate (nat lead) Tick @ rest) s)) =
          os_system_calls s @ [system_command (os_windows s) action_type]" for rest
  proof -
    have "1 \<le> remaining_time ?D" using assms(6) by (simp add: D)
    from exec_dialog_accept [OF D(1) this, of rest] show ?thesis
      using gone by (simp add: fired D s1 execute_action_fields event_ids_def assms(3))
  qed
  have clicks: "timer_id \<notin> set (event_ids (snd (timer_timeout timer
           (replicate k Tick @ ClickCancel # rest) s))) \<and>
        os_system_calls (snd (timer_timeout timer (replicate k Tick @ ClickCancel # rest) s)) =
          os_system_calls s @ [system_command (os_windows s) action_type]"
    if "int k < lead" for k rest
  proof -
    have k: "int k < remaining_time ?D" using that by (simp add: D)
    from exec_dialog_click [OF D(1) k, of rest] show ?thesis
      using gone by (simp add: fired D s1 execute_action_fields event_ids_def assms(3))
  qed
  have rejects: "timer_id \<notin> set (event_ids (snd (timer_timeout timer
           (replicate k Tick @ CallReject # rest) s))) \<and>
        os_system_calls (snd (timer_timeout timer (replicate k Tick @ CallReject # rest) s)) =
          os_system_calls s"
    if "int k < lead" for k rest
  proof -
    have k: "int k < remaining_time ?D" using that by (simp add: D)
    have "dlg_result (reject d) = Some Rejected" "user_canceled (reject d) = True" for d
      by (simp_all add: reject_def)
    then show ?thesis
      using gone
      by (simp add: fired exec_dialog_reject [OF D(1) k] s1 cancel_event_fields event_ids_def)
  qed
  from showing executes clicks rejects show ?thesis by blast
qed

theorem pre_notification_click_executes_witness:
  "map_of (scheduled_events (run restart_in_2s (SchedulerApp_init notify_config 0 True True))) 1 =
     Some (0, Restart, 2000) \<and>
   isActive 0 (run restart_in_2s (SchedulerApp_init notify_config 0 True True)) \<and>
   notifications_enable (settings (run restart_in_2s (SchedulerApp_init notify_config 0 True True))) \<and>
   notifications_seconds_before
     (settings (run restart_in_2s (SchedulerApp_init notify_config 0 True True))) = 3 \<and>
   event_ids (snd (timer_timeout 0 [Tick, Tick]
     (run restart_in_2s (SchedulerApp_init notify_config 0 True True)))) = [1] \<and>
   os_system_calls (snd (timer_timeout 0 [Tick, Tick]
     (run restart_in_2s (SchedulerApp_init notify_config 0 True True)))) = [] \<and>
   event_ids (snd (timer_timeout 0 [Tick, Tick, Tick]
     (run restart_in_2s (SchedulerApp_init notify_config 0 True True)))) = [] \<and>
   os_system_calls (snd (timer_timeout 0 [Tick, Tick, Tick]
     (run restart_in_2s (SchedulerApp_init notify_config 0 True True)))) =
     [''shutdown /r /f /t 0''] \<and>
   user_canceled (exec_dialog [Tick, ClickCancel] (PreActionDialog Restart 3)) = False \<and>
   event_ids (snd (timer_timeout 0 [Tick, ClickCancel]
     (run restart_in_2s (SchedulerApp_init notify_config 0 True True)))) = [] \<and>
   os_system_calls (snd (timer_timeout 0 [Tick, ClickCancel]
     (run restart_in_2s (SchedulerApp_init notify_config 0 True True)))) =
     [''shutdown /r /f /t 0''] \<and>
   event_ids (snd (timer_timeout 0 [Tick, CallReject]
     (run restart_in_2s (SchedulerApp_init notify_config 0 True True)))) = [] \<and>
   os_system_calls (snd (timer_timeout 0 [Tick, CallReject]
     (run restart_in_2s (SchedulerApp_init notify_config 0 True True)))) = []"
  using pre_notification_click_executes [where ?es0.0 = restart_in_2s and cfg = notify_config
      and now = 0 and w = True and lw = True
      and timer_id = 1 and timer = 0 and action_type = Restart and dt = 2000]
  by (simp add: model_defs)

subsection \<open>C4: cancelling an event\<close>

text \<open>
  C4. In a reachable state, let an event be scheduled under \<open>timer_id\<close> (it is Armed or
  PreNotifying). The code does the following.
  \<^item> \<open>cancel_event\<close> deletes its entry, leaves the timer of the event stopped and calls
    \<open>os.system\<close> not at all. In every state reached afterwards, by any events, the
    identifier is still absent and that timer still stopped, so that it does not fire;
    and a fire that arrives all the same (\<open>prepare_for_action\<close>, or the code after the
    dialog, entered for \<open>timer_id\<close>) returns at once and changes nothing.
  \<^item> For a PreNotifying event the pending countdown is the one-second \<open>close_timer\<close>
    of the dialog. When the event is cancelled through \<open>reject\<close>, after fewer seconds
    than the lead time, the entry is deleted and \<open>os.system\<close> is not called, but
    \<open>close_timer\<close> is still running and its next tick counts the remaining seconds
    down further: neither \<open>reject\<close> nor \<open>cancel_event\<close> stops it, while \<open>on_timeout\<close>
    stops it before it accepts. Here the code departs from the property, by which
    cancelling stops the pending countdown.
\<close>

theorem cancel_event_leaves_dialog_countdown:
  fixes es0 :: "event list" and cfg :: config and now :: datetime and w lw u :: bool
    and timer_id :: int
  defines "s \<equiv> run es0 (SchedulerApp_init cfg now w lw)"
  defines "s' \<equiv> snd (cancel_event timer_id u s)"
  defines "lead \<equiv> notifications_seconds_before (settings s)"
  assumes ev: "map_of (scheduled_events s) timer_id = Some (timer, action_type, dt)"
  shows
    "timer_id \<notin> set (event_ids s') \<and>
     \<not> isActive timer s' \<and>
     os_system_calls s' = os_system_calls s \<and>
     (\<forall>es evs d.
        timer_id \<notin> set (event_ids (run es s')) \<and>
        \<not> isActive timer (run es s') \<and>
        timer_timeout timer evs (run es s') = (Returned, run es s') \<and>
        prepare_for_action evs timer_id (run es s') = (Returned, run es s') \<and>
        after_exec d timer_id (run es s') = (Returned, run es s')) \<and>
     (\<forall>k. isActive timer s \<and> notifications_enable (settings s) \<and> int k < lead \<longrightarrow>
        timer_id \<notin> set (event_ids (snd (timer_timeout timer
           (replicate k Tick @ [CallReject]) s))) \<and>
        os_system_calls (snd (timer_timeout timer (replicate k Tick @ [CallReject]) s)) =
          os_system_calls s \<and>
        user_canceled (exec_dialog (replicate k Tick @ [CallReject])
          (PreActionDialog action_type lead)) \<and>
        close_timer_active (exec_dialog (replicate k Tick @ [CallReject])
          (PreActionDialog action_type lead)) \<and>
        remaining_time (on_timeout (exec_dialog (replicate k Tick @ [CallReject])
          (PreActionDialog action_type lead))) = lead - int k - 1)"
proof -
  have ok: "registry_ok s"
    unfolding s_def by (rule registry_ok_run [OF registry_ok_init])
  have ok': "registry_ok s'"
    unfolding s'_def by (rule registry_ok_shrinks [OF ok shrinks_cancel_event])
  have bounds: "timer_id \<le> last_timer_id s" "timer < length (timers s)"
    and slot: "slot (timers s ! timer) = timer_id"
    using registry_ok_entry [OF ok map_of_SomeD [OF ev]] by simp_all
  have gone: "timer_id \<notin> set (event_ids s')"
    using delete_notin_dom [of timer_id "scheduled_events s"]
    by (simp add: s'_def event_ids_def cancel_event_fields)
  have stopped: "\<not> isActive timer s'"
    unfolding s'_def by (rule cancel_event_stops [OF ev])
  have calls: "os_system_calls s' = os_system_calls s"
    by (simp add: s'_def cancel_event_fields)
  have bounds': "timer_id \<le> last_timer_id s'" "timer < length (timers s')"
    using bounds shrinks_cancel_event [of s timer_id u]
    by (simp_all add: s'_def shrinks_def)
  have later: "timer_id \<notin> set (event_ids (run es s')) \<and> \<not> isActive timer (run es s') \<and>
      timer_timeout timer evs (run es s') = (Returned, run es s') \<and>
      prepare_for_action evs timer_id (run es s') = (Returned, run es s') \<and>
      after_exec d timer_id (run es s') = (Returned, run es s')" for es evs d
  proof -
    have a: "timer_id \<notin> set (event_ids (run es s'))"
      by (rule absent_run [OF ok' bounds'(1) gone])
    have b: "\<not> isActive timer (run es s')"
      by (rule stopped_run [OF bounds'(2) stopped])
    from a b absent_noop [OF a] show ?thesis
      by (simp add: timer_timeout_def)
  qed
  have dialog: "timer_id \<notin> set (event_ids (snd (timer_timeout timer
           (replicate k Tick @ [CallReject]) s))) \<and>
        os_system_calls (snd (timer_timeout timer (replicate k Tick @ [CallReject]) s)) =
          os_system_calls s \<and>
        user_canceled (exec_dialog (replicate k Tick @ [CallReject])
          (PreActionDialog action_type lead)) \<and>
        close_timer_active (exec_dialog (replicate k Tick @ [CallReject])
          (PreActionDialog action_type lead)) \<and>
        remaining_time (on_timeout (exec_dialog (replicate k Tick @ [CallReject])
          (PreActionDialog action_type lead))) = lead - int k - 1"
    if act: "isActive timer s" and on: "notifications_enable (settings s)" and k: "int k < lead"
    for k
  proof -
    let ?s0 = "if single_shot (timers s ! timer) then stop timer s else s"
    let ?s1 = "showMessage (Literal ''Action About to Happen'') (WillOccurIn action_type lead)
                 Warning 5000 ?s0"
    let ?D = "PreActionDialog action_type lead"
    let ?d = "exec_dialog (replicate k Tick) ?D"
    have D: "dlg_result ?D = None" "remaining_time ?D = lead" "close_timer_active ?D"
      by (simp_all add: PreActionDialog_def)
    have k': "int k < remaining_time ?D" using k by (simp add: D)
    have rej: "exec_dialog (replicate k Tick @ [CallReject]) ?D = reject ?d"
      by (rule exec_dialog_reject [OF D(1) k'])
    have d: "remaining_time ?d = lead - int k" "close_timer_active ?d"
      using exec_dialog_ticks [OF D(1) k'] exec_dialog_ticks_timer [OF D(1) k']
      by (simp_all add: D)
    have s0: "map_of (scheduled_events ?s0) timer_id = Some (timer, action_type, dt)"
      "notifications_enable (settings ?s0)" "notifications_seconds_before (settings ?s0) = lead"
      using ev on by (simp_all add: lead_def)
    have "timer_timeout timer (replicate k Tick @ [CallReject]) s =
            cancel_event timer_id True ?s1"
      unfolding timer_timeout_fired [OF act slot] prepare_for_action_notify [OF s0(1,2)]
        s0(3) Let_def rej
      by (simp add: reject_def)
    moreover have "scheduled_events ?s1 = scheduled_events s"
      "os_system_calls ?s1 = os_system_calls s"
      by (simp_all add: showMessage_def)
    moreover have "timer_id \<notin> set (map fst (AList.delete timer_id (scheduled_events s)))"
      using delete_notin_dom [of timer_id "scheduled_events s"] by simp
    ultimately have "timer_id \<notin> set (event_ids (snd (timer_timeout timer
           (replicate k Tick @ [CallReject]) s)))"
      "os_system_calls (snd (timer_timeout timer (replicate k Tick @ [CallReject]) s)) =
          os_system_calls s"
      by (simp_all add: cancel_event_fields event_ids_def)
    moreover have "user_canceled (reject ?d)" "close_timer_active (reject ?d)"
      "remaining_time (on_timeout (reject ?d)) = lead - int k - 1"
      using d by (simp_all add: reject_def on_timeout_def Let_def)
    ultimately show ?thesis
      by (simp only: rej simp_thms)
  qed
  from gone stopped calls later dialog show ?thesis
    by blast
qed

theorem cancel_event_leaves_dialog_countdown_witness:
  "map_of (scheduled_events (run shutdown_in_5s (SchedulerApp_init default_config 0 True True))) 1 =
     Some (0, Shutdown, 5000) \<and>
   event_ids (snd (cancel_event 1 False
      (run shutdown_in_5s (SchedulerApp_init default_config 0 True True)))) = [] \<and>
   \<not> isActive 0 (snd (cancel_event 1 False
      (run shutdown_in_5s (SchedulerApp_init default_config 0 True True)))) \<and>
   os_system_calls (run [TimerTimeout 0 []] (snd (cancel_event 1 False
      (run shutdown_in_5s (SchedulerApp_init default_config 0 True True))))) = [] \<and>
   map_of (scheduled_events (run restart_in_2s (SchedulerApp_init notify_config 0 True True))) 1 =
     Some (0, Restart, 2000) \<and>
   isActive 0 (run restart_in_2s (SchedulerApp_init notify_config 0 True True)) \<and>
   notifications_enable (settings (run restart_in_2s (SchedulerApp_init notify_config 0 True True))) \<and>
   notifications_seconds_before
     (settings (run restart_in_2s (SchedulerApp_init notify_config 0 True True))) = 3 \<and>
   event_ids (snd (timer_timeout 0 [Tick, CallReject]
     (run restart_in_2s (SchedulerApp_init notify_config 0 True True)))) = [] \<and>
   os_system_calls (snd (timer_timeout 0 [Tick, CallReject]
     (run restart_in_2s (SchedulerApp_init notify_config 0 True True)))) = [] \<and>
   user_canceled (exec_dialog [Tick, CallReject] (PreActionDialog Restart 3)) \<and>
   close_timer_active (exec_dialog [Tick, CallReject] (PreActionDialog Restart 3)) \<and>
   remaining_time (on_timeout (exec_dialog [Tick, CallReject] (PreActionDialog Restart 3))) = 1"
  using cancel_event_leaves_dialog_countdown [where ?es0.0 = shutdown_in_5s and cfg = default_config
      and now = 0 and w = True and lw = True and timer_id = 1 and timer = 0
      and action_type = Shutdown and dt = 5000 and u = False]
    cancel_event_leaves_dialog_countdown [where ?es0.0 = restart_in_2s and cfg = notify_config
      and now = 0 and w = True and lw = True and timer_id = 1 and timer = 0
      and action_type = Restart and dt = 2000 and u = True]
  by (simp add: model_defs)

subsection \<open>C5: the inactivity check\<close>

text \<open>
  C5, as the specification states it, does not hold: \<open>check_inactivity\<close> calls
  \<open>perform_system_action("sleep")\<close> itself. With auto-sleep and pre-action
  notifications both enabled, a timeout of one minute and 61 seconds of idle time, the
  check returns with the sleep command already issued; it has created no event, no timer
  and no identifier, and has shown no notification.
\<close>

theorem check_inactivity_not_scheduled:
  "auto_sleep_enable (settings (boot auto_sleep_config)) \<and>
   notifications_enable (settings (boot auto_sleep_config)) \<and>
   auto_sleep_timeout_minutes (settings (boot auto_sleep_config)) = 1 \<and>
   get_system_idle_time_seconds (LastInput 61000 0) = 61 \<and>
   fst (check_inactivity (LastInput 61000 0) (boot auto_sleep_config)) = Returned \<and>
   os_system_calls (snd (check_inactivity (LastInput 61000 0) (boot auto_sleep_config))) =
     [''rundll32.exe powrprof.dll,SetSuspendState 0,1,0''] \<and>
   scheduled_events (snd (check_inactivity (LastInput 61000 0) (boot auto_sleep_config))) = [] \<and>
   last_timer_id (snd (check_inactivity (LastInput 61000 0) (boot auto_sleep_config))) = 0 \<and>
   timers (snd (check_inactivity (LastInput 61000 0) (boot auto_sleep_config))) = [] \<and>
   tray_messages (snd (check_inactivity (LastInput 61000 0) (boot auto_sleep_config))) = []"
  by (simp add: model_defs)

text \<open>
  C5, amended. Whenever auto-sleep is enabled and the probed idle time in seconds is at
  least sixty times the timeout in minutes, \<open>check_inactivity\<close> calls \<open>os.system\<close> with
  the sleep command at once and changes nothing else: no event is scheduled and no
  pre-action notification is shown, whatever the notification settings. In every other
  case it changes nothing.
\<close>

theorem check_inactivity_sleeps_directly:
  "(auto_sleep_enable (settings s) \<and>
    real_of_int (auto_sleep_timeout_minutes (settings s)) * 60 \<le> get_system_idle_time_seconds p
    \<longrightarrow> check_inactivity p s =
          (Returned,
           s\<lparr>os_system_calls := os_system_calls s @ [system_command (os_windows s) Sleep]\<rparr>)) \<and>
   (\<not> (auto_sleep_enable (settings s) \<and>
       real_of_int (auto_sleep_timeout_minutes (settings s)) * 60 \<le> get_system_idle_time_seconds p)
    \<longrightarrow> check_inactivity p s = (Returned, s))"
  by (auto simp: check_inactivity_def Let_def perform_system_action_def)

theorem check_inactivity_sleeps_directly_witness:
  "auto_sleep_enable (settings (boot auto_sleep_config)) \<and>
   real_of_int (auto_sleep_timeout_minutes (settings (boot auto_sleep_config))) * 60
     \<le> get_system_idle_time_seconds (LastInput 61000 0) \<and>
   check_inactivity (LastInput 61000 0) (boot auto_sleep_config) =
     (Returned,
      (boot auto_sleep_config)
        \<lparr>os_system_calls := [''rundll32.exe powrprof.dll,SetSuspendState 0,1,0'']\<rparr>) \<and>
   \<not> real_of_int (auto_sleep_timeout_minutes (settings (boot auto_sleep_config))) * 60
     \<le> get_system_idle_time_seconds (LastInput 59000 0) \<and>
   check_inactivity (LastInput 59000 0) (boot auto_sleep_config) =
     (Returned, boot auto_sleep_config)"
  using check_inactivity_sleeps_directly [of "boot auto_sleep_config" "LastInput 61000 0"]
    check_inactivity_sleeps_directly [of "boot auto_sleep_config" "LastInput 59000 0"]
  by (simp add: model_defs)

subsection \<open>C6: cancelling all events\<close>

text \<open>
  C6, as the specification states it, does not hold: \<open>cancel_all_scheduled_events\<close>
  reports no count. After cancelling one event and after cancelling two, the label and the
  tray message carry the same fixed sentence, and with logging disabled nothing else is
  written. On an empty registry it does change something: the label.
\<close>

theorem cancel_all_reports_no_count:
  "length (scheduled_events (run shutdown_in_5s (boot default_config))) = 1 \<and>
   length (scheduled_events (run two_events (boot default_config))) = 2 \<and>
   fst (cancel_all_scheduled_events (run shutdown_in_5s (boot default_config))) = Returned \<and>
   fst (cancel_all_scheduled_events (run two_events (boot default_config))) = Returned \<and>
   info_label (snd (cancel_all_scheduled_events (run shutdown_in_5s (boot default_config)))) =
     Literal ''All scheduled events have been canceled.'' \<and>
   info_label (snd (cancel_all_scheduled_events (run two_events (boot default_config)))) =
     Literal ''All scheduled events have been canceled.'' \<and>
   last (tray_messages (snd (cancel_all_scheduled_events (run shutdown_in_5s (boot default_config))))) =
     (Literal ''All Canceled'', Literal ''All scheduled events have been canceled.'',
      Information, 3000) \<and>
   last (tray_messages (snd (cancel_all_scheduled_events (run two_events (boot default_config))))) =
     (Literal ''All Canceled'', Literal ''All scheduled events have been canceled.'',
      Information, 3000) \<and>
   log_file (snd (cancel_all_scheduled_events (run two_events (boot default_config)))) = [] \<and>
   info_label (snd (cancel_all_scheduled_events (boot default_config))) \<noteq>
     info_label (boot default_config)"
  by (simp add: model_defs)

text \<open>
  C6, amended. Let logging be disabled or the log file be writable. On a registry that
  holds events, \<open>cancel_all_scheduled_events\<close> returns with the registry empty and the
  timer of every event it held stopped, without a call of \<open>os.system\<close>; it reports the
  fixed sentence ``All scheduled events have been canceled.'' on the label and in the tray,
  and, when logging is enabled, appends one line per cancelled event to the log, in the
  order of the registry. On an empty registry it sets the label to ``No events to
  cancel.'' and changes nothing else.
\<close>

theorem cancel_all_clears_registry:
  assumes "\<not> logging_enable (settings s) \<or> log_writable s"
  shows
    "(scheduled_events s = [] \<longrightarrow>
        cancel_all_scheduled_events s =
          (Returned, s\<lparr>info_label := Literal ''No events to cancel.''\<rparr>)) \<and>
     (scheduled_events s \<noteq> [] \<longrightarrow>
        fst (cancel_all_scheduled_events s) = Returned \<and>
        scheduled_events (snd (cancel_all_scheduled_events s)) = [] \<and>
        (\<forall>(k, r, a, t) \<in> set (scheduled_events s).
           \<not> isActive r (snd (cancel_all_scheduled_events s))) \<and>
        os_system_calls (snd (cancel_all_scheduled_events s)) = os_system_calls s \<and>
        info_label (snd (cancel_all_scheduled_events s)) =
          Literal ''All scheduled events have been canceled.'' \<and>
        tray_messages (snd (cancel_all_scheduled_events s)) =
          tray_messages s @
            [(Literal ''All Canceled'', Literal ''All scheduled events have been canceled.'',
              Information, 3000)] \<and>
        log_file (snd (cancel_all_scheduled_events s)) =
          log_file s @
            (if logging_enable (settings s)
             then map (\<lambda>(k, r, a, t). (clock s, CanceledAt a t False)) (scheduled_events s)
             else []))"
proof -
  let ?r = "cancel_loop (scheduled_events s) s"
  note loop = cancel_loop_completes [OF assms, of "scheduled_events s"]
  then have r: "fst ?r = Returned"
    by simp
  have all: "cancel_all_scheduled_events s =
      (Returned,
       showMessage (Literal ''All Canceled'') (Literal ''All scheduled events have been canceled.'')
         Information 3000
         (snd ?r\<lparr>info_label := Literal ''All scheduled events have been canceled.''\<rparr>))"
    if "scheduled_events s \<noteq> []"
    using that r by (simp add: cancel_all_scheduled_events_def and_then_def)
  have empty: "filter (\<lambda>p. fst p \<notin> fst ` set (scheduled_events s)) (scheduled_events s) = []"
    by (simp add: filter_empty_conv)
  show ?thesis
  proof (cases "scheduled_events s = []")
    case True
    then show ?thesis by (simp add: cancel_all_scheduled_events_def)
  next
    case False
    with loop show ?thesis
      by (simp add: all [OF False] empty showMessage_def isActive_def)
  qed
qed

theorem cancel_all_clears_registry_witness:
  "\<not> logging_enable (settings (boot default_config)) \<and>
   scheduled_events (boot default_config) = [] \<and>
   cancel_all_scheduled_events (boot default_config) =
     (Returned, (boot default_config)\<lparr>info_label := Literal ''No events to cancel.''\<rparr>) \<and>
   \<not> logging_enable (settings (run two_events (boot default_config))) \<and>
   scheduled_events (run two_events (boot default_config)) =
     [(1, 0, Shutdown, 5000), (2, 1, Restart, 5000)] \<and>
   fst (cancel_all_scheduled_events (run two_events (boot default_config))) = Returned \<and>
   scheduled_events (snd (cancel_all_scheduled_events (run two_events (boot default_config)))) = [] \<and>
   \<not> isActive 0 (snd (cancel_all_scheduled_events (run two_events (boot default_config)))) \<and>
   \<not> isActive 1 (snd (cancel_all_scheduled_events (run two_events (boot default_config)))) \<and>
   os_system_calls (snd (cancel_all_scheduled_events (run two_events (boot default_config)))) = []"
  using cancel_all_clears_registry [of "boot default_config"]
    cancel_all_clears_registry [of "run two_events (boot default_config)"]
  by (simp add: model_defs)

subsection \<open>C7: a log line that cannot be written\<close>

text \<open>
  C7, as the specification states it, does not hold: \<open>log_event\<close> has no exception
  handler. With logging enabled and a log file that cannot be written, \<open>log_event\<close>
  raises, and so do \<open>schedule_action\<close>, \<open>execute_action\<close>, \<open>cancel_event\<close> and
  \<open>cancel_all_scheduled_events\<close>, which call it.
\<close>

theorem log_failure_not_swallowed:
  "logging_enable (settings (run [LogWritable False, EditDateTime 5000] (boot logging_config))) \<and>
   \<not> log_writable (run [LogWritable False, EditDateTime 5000] (boot logging_config)) \<and>
   log_event (ScheduledAt Shutdown 5000)
     (run [LogWritable False, EditDateTime 5000] (boot logging_config)) =
     (Raised OSError, run [LogWritable False, EditDateTime 5000] (boot logging_config)) \<and>
   fst (schedule_action Shutdown
     (run [LogWritable False, EditDateTime 5000] (boot logging_config))) = Raised OSError \<and>
   fst (execute_action 1
     (run [LogWritable False, EditDateTime 5000, ClickSchedule Shutdown] (boot logging_config))) =
     Raised OSError \<and>
   fst (cancel_event 1 False
     (run [LogWritable False, EditDateTime 5000, ClickSchedule Shutdown] (boot logging_config))) =
     Raised OSError \<and>
   fst (cancel_all_scheduled_events
     (run [LogWritable False, EditDateTime 5000, ClickSchedule Shutdown] (boot logging_config))) =
     Raised OSError"
  by (simp add: model_defs)

text \<open>
  C7, amended. When logging is disabled, \<open>log_event\<close> does nothing. When logging is
  enabled and the file can be written, it appends one line. When logging is enabled and the
  write fails, the failure is not swallowed: \<open>log_event\<close> raises it, and it leaves every
  caller that reaches the log line (a schedule request for a future time, the execution or
  the cancellation of a scheduled event, a cancel-all on a registry that holds events).
\<close>

theorem log_event_failure_propagates:
  "(\<not> logging_enable (settings s) \<longrightarrow> log_event message s = (Returned, s)) \<and>
   (logging_enable (settings s) \<and> log_writable s \<longrightarrow>
      log_event message s = (Returned, s\<lparr>log_file := log_file s @ [(clock s, message)]\<rparr>)) \<and>
   (logging_enable (settings s) \<and> \<not> log_writable s \<longrightarrow>
      log_event message s = (Raised OSError, s) \<and>
      (clock s < datetime_picker s \<longrightarrow> fst (schedule_action a s) = Raised OSError) \<and>
      (k \<in> set (event_ids s) \<longrightarrow>
         fst (execute_action k s) = Raised OSError \<and>
         fst (cancel_event k u s) = Raised OSError) \<and>
      (scheduled_events s \<noteq> [] \<longrightarrow> fst (cancel_all_scheduled_events s) = Raised OSError))"
proof -
  have raises: "log_event m s' = (Raised OSError, s')"
    if "logging_enable (settings s')" "\<not> log_writable s'" for m s'
    using that by (simp add: log_event_def)
  have callers:
    "(clock s < datetime_picker s \<longrightarrow> fst (schedule_action a s) = Raised OSError) \<and>
     (k \<in> set (event_ids s) \<longrightarrow>
        fst (execute_action k s) = Raised OSError \<and>
        fst (cancel_event k u s) = Raised OSError) \<and>
     (scheduled_events s \<noteq> [] \<longrightarrow> fst (cancel_all_scheduled_events s) = Raised OSError)"
    if on: "logging_enable (settings s)" and bad: "\<not> log_writable s"
  proof (intro conjI impI)
    assume "clock s < datetime_picker s"
    then show "fst (schedule_action a s) = Raised OSError"
      using on bad by (simp add: schedule_action_def Let_def raises)
  next
    assume "k \<in> set (event_ids s)"
    then obtain v where "map_of (scheduled_events s) k = Some v"
      by (cases "map_of (scheduled_events s) k")
         (simp_all add: event_ids_def map_of_eq_None_iff)
    moreover obtain timer action_type dt where "v = (timer, action_type, dt)"
      by (cases v) auto
    ultimately have v: "map_of (scheduled_events s) k = Some (timer, action_type, dt)"
      by simp
    show "fst (execute_action k s) = Raised OSError"
      using on bad by (simp add: execute_action_def v Let_def perform_system_action_def raises)
    show "fst (cancel_event k u s) = Raised OSError"
      using on bad by (simp add: cancel_event_def v Let_def stop_def raises)
  next
    assume "scheduled_events s \<noteq> []"
    then obtain x xs where xs: "scheduled_events s = x # xs"
      by (cases "scheduled_events s") auto
    obtain timer_id timer action_type dt where x: "x = (timer_id, timer, action_type, dt)"
      by (cases x) auto
    have "fst (cancel_loop (x # xs) s) = Raised OSError"
      using on bad by (simp add: x Let_def stop_def raises)
    then show "fst (cancel_all_scheduled_events s) = Raised OSError"
      by (simp add: cancel_all_scheduled_events_def xs and_then_not_Returned)
  qed
  show ?thesis
    using callers by (simp add: log_event_def)
qed

theorem log_event_failure_propagates_witness:
  "\<not> logging_enable (settings (boot default_config)) \<and>
   log_event (ScheduledAt Sleep 9) (boot default_config) = (Returned, boot default_config) \<and>
   logging_enable (settings (boot logging_config)) \<and> log_writable (boot logging_config) \<and>
   log_event (ScheduledAt Sleep 9) (boot logging_config) =
     (Returned, (boot logging_config)\<lparr>log_file := [(0, ScheduledAt Sleep 9)]\<rparr>) \<and>
   logging_enable (settings (run (LogWritable False # shutdown_in_5s) (boot logging_config))) \<and>
   \<not> log_writable (run (LogWritable False # shutdown_in_5s) (boot logging_config)) \<and>
   clock (run (LogWritable False # shutdown_in_5s) (boot logging_config)) <
     datetime_picker (run (LogWritable False # shutdown_in_5s) (boot logging_config)) \<and>
   event_ids (run (LogWritable False # shutdown_in_5s) (boot logging_config)) = [1] \<and>
   fst (schedule_action Restart (run (LogWritable False # shutdown_in_5s) (boot logging_config))) =
     Raised OSError \<and>
   fst (execute_action 1 (run (LogWritable False # shutdown_in_5s) (boot logging_config))) =
     Raised OSError \<and>
   fst (cancel_event 1 True (run (LogWritable False # shutdown_in_5s) (boot logging_config))) =
     Raised OSError \<and>
   fst (cancel_all_scheduled_events
     (run (LogWritable False # shutdown_in_5s) (boot logging_config))) = Raised OSError"
  using log_event_failure_propagates [of "boot default_config" "ScheduledAt Sleep 9"]
    log_event_failure_propagates [of "boot logging_config" "ScheduledAt Sleep 9"]
    log_event_failure_propagates [of "run (LogWritable False # shutdown_in_5s) (boot logging_config)"
      "ScheduledAt Sleep 9" Restart 1 True]
  by (simp add: model_defs)

subsection \<open>C8: the registry holds the events that are neither executed nor cancelled\<close>

text \<open>
  C8. In every reachable state:
  \<^item> the keys of \<open>scheduled_events\<close> are distinct, each was assigned by
    \<open>schedule_action\<close>, and each is stored with the timer whose slot carries it;
  \<^item> an event that is executed or cancelled is deleted by the very call that executes
    or cancels it: after \<open>execute_action\<close> and after \<open>cancel_event\<close>, however they
    end, the key is absent; after a \<open>cancel_all_scheduled_events\<close> that returns, the
    registry is empty, and after one that ends in any way, an event still in the
    registry has its timer as it was (it has not been cancelled);
  \<^item> a key that has been assigned and is absent stays absent in every later state.
\<close>

theorem registry_holds_live_events:
  fixes es :: "event list" and cfg :: config and now :: datetime and w lw :: bool
  defines "s \<equiv> run es (SchedulerApp_init cfg now w lw)"
  shows
    "distinct (event_ids s) \<and>
     (\<forall>(k, r, a, t) \<in> set (scheduled_events s).
        0 < k \<and> k \<le> last_timer_id s \<and> r < length (timers s) \<and> slot (timers s ! r) = k) \<and>
     (\<forall>k u. k \<notin> set (event_ids (snd (execute_action k s))) \<and>
            k \<notin> set (event_ids (snd (cancel_event k u s)))) \<and>
     (fst (cancel_all_scheduled_events s) = Returned \<longrightarrow>
        scheduled_events (snd (cancel_all_scheduled_events s)) = []) \<and>
     (\<forall>(k, r, a, t) \<in> set (scheduled_events (snd (cancel_all_scheduled_events s))).
        isActive r (snd (cancel_all_scheduled_events s)) = isActive r s) \<and>
     (\<forall>k es'. k \<le> last_timer_id s \<and> k \<notin> set (event_ids s) \<longrightarrow>
        k \<notin> set (event_ids (run es' s)))"
proof -
  have ok: "registry_ok s"
    unfolding s_def by (rule registry_ok_run [OF registry_ok_init])
  have a: "distinct (event_ids s)"
    and b: "\<forall>(k, r, a, t) \<in> set (scheduled_events s).
        0 < k \<and> k \<le> last_timer_id s \<and> r < length (timers s) \<and> slot (timers s ! r) = k"
    using ok by (simp_all add: registry_ok_def)
  have c: "k \<notin> set (event_ids (snd (execute_action k s))) \<and>
           k \<notin> set (event_ids (snd (cancel_event k u s)))" for k u
    using delete_notin_dom [of k "scheduled_events s"]
    by (simp add: event_ids_def execute_action_fields cancel_event_fields)
  have d: "scheduled_events (snd (cancel_all_scheduled_events s)) = []"
    if "fst (cancel_all_scheduled_events s) = Returned"
  proof (cases "scheduled_events s = []")
    case True
    then show ?thesis by (simp add: cancel_all_scheduled_events_def)
  next
    case False
    let ?r = "cancel_loop (scheduled_events s) s"
    have "fst ?r = Returned"
      using that False
      by (cases "fst ?r") (simp_all add: cancel_all_scheduled_events_def and_then_def)
    moreover from this have "scheduled_events (snd ?r) = []"
      by (simp add: cancel_loop_returned filter_empty_conv)
    ultimately show ?thesis
      using False by (simp add: cancel_all_scheduled_events_def and_then_def showMessage_def)
  qed
  have e: "k \<notin> set (event_ids (run es' s))"
    if "k \<le> last_timer_id s \<and> k \<notin> set (event_ids s)" for k es'
    using that absent_run [OF ok] by blast
  from a b c d e cancel_all_keeps_other_timers [OF ok] show ?thesis
    by blast
qed

theorem registry_holds_live_events_witness:
  "scheduled_events (run executed_then_rescheduled (SchedulerApp_init default_config 0 True True)) =
     [(2, 1, Restart, 5000)] \<and>
   last_timer_id (run executed_then_rescheduled (SchedulerApp_init default_config 0 True True)) = 2 \<and>
   slot (timers (run executed_then_rescheduled (SchedulerApp_init default_config 0 True True)) ! 1) = 2 \<and>
   event_ids (run [ClickSchedule Sleep, ClickCancelAll, ClickSchedule Sleep]
     (run executed_then_rescheduled (SchedulerApp_init default_config 0 True True))) = [4] \<and>
   fst (cancel_all_scheduled_events
     (run executed_then_rescheduled (SchedulerApp_init default_config 0 True True))) = Returned \<and>
   scheduled_events (snd (cancel_all_scheduled_events
     (run executed_then_rescheduled (SchedulerApp_init default_config 0 True True)))) = []"
  using registry_holds_live_events [where es = executed_then_rescheduled and cfg = default_config
      and now = 0 and w = True and lw = True]
  by (simp add: model_defs)

subsection \<open>C9: identifiers\<close>

text \<open>
  C9. Along every run of the event loop from the initial state, the identifiers assigned
  by \<open>schedule_action\<close>, in the order of their assignment, form a strictly increasing
  list of positive numbers (so none occurs twice, whatever was executed or cancelled in
  between), and every key of the registry is one of them. A schedule request for a future
  time assigns the last identifier plus one, which is greater than all assigned before.
\<close>

theorem assigned_ids_strictly_increasing:
  fixes es :: "event list" and cfg :: config and now :: datetime and w lw :: bool
  defines "s0 \<equiv> SchedulerApp_init cfg now w lw"
  shows
    "sorted_wrt (<) (assigned_ids es s0) \<and>
     (\<forall>k \<in> set (assigned_ids es s0). 0 < k \<and> k \<le> last_timer_id (run es s0)) \<and>
     (\<forall>k \<in> set (event_ids (run es s0)). k \<in> set (assigned_ids es s0)) \<and>
     (clock (run es s0) < datetime_picker (run es s0) \<longrightarrow>
        event_ids (snd (schedule_action a (run es s0))) =
          event_ids (run es s0) @ [last_timer_id (run es s0) + 1] \<and>
        assigned_ids (es @ [ClickSchedule a]) s0 =
          assigned_ids es s0 @ [last_timer_id (run es s0) + 1])"
proof -
  have ok0: "registry_ok s0" unfolding s0_def by (rule registry_ok_init)
  have ok: "registry_ok (run es s0)" by (rule registry_ok_run [OF ok0])
  have l0: "last_timer_id s0 = 0" by (simp add: s0_def SchedulerApp_init_def)
  note b = assigned_ids_bounds [OF ok0, of es]
  have present: "set (event_ids (run es s)) \<subseteq> set (event_ids s) \<union> set (assigned_ids es s)" for s
  proof (induction es arbitrary: s)
    case Nil
    show ?case by simp
  next
    case (Cons e es)
    have "set (event_ids (snd (dispatch e s))) \<subseteq>
          set (event_ids s) \<union> set (new_ids s (snd (dispatch e s)))"
      by (auto simp: new_ids_def)
    with Cons [of "snd (dispatch e s)"] show ?case by auto
  qed
  have c: "\<forall>k \<in> set (event_ids (run es s0)). k \<in> set (assigned_ids es s0)"
    using present [of s0] by (auto simp: s0_def SchedulerApp_init_def event_ids_def)
  have d: "event_ids (snd (schedule_action a (run es s0))) =
          event_ids (run es s0) @ [last_timer_id (run es s0) + 1] \<and>
        assigned_ids (es @ [ClickSchedule a]) s0 =
          assigned_ids es s0 @ [last_timer_id (run es s0) + 1]"
    if "clock (run es s0) < datetime_picker (run es s0)"
    using new_ids_schedule [OF ok that, of a] schedule_action_appends [OF ok that, of a]
    by (simp add: assigned_ids_append dispatch_def event_ids_def)
  from b c d show ?thesis
    by (auto simp: l0)
qed

theorem assigned_ids_strictly_increasing_witness:
  "assigned_ids executed_then_rescheduled (SchedulerApp_init default_config 0 True True) = [1, 2] \<and>
   event_ids (run executed_then_rescheduled (SchedulerApp_init default_config 0 True True)) = [2] \<and>
   clock (run executed_then_rescheduled (SchedulerApp_init default_config 0 True True)) <
     datetime_picker (run executed_then_rescheduled (SchedulerApp_init default_config 0 True True)) \<and>
   event_ids (snd (schedule_action Sleep
     (run executed_then_rescheduled (SchedulerApp_init default_config 0 True True)))) = [2, 3] \<and>
   assigned_ids (executed_then_rescheduled @ [ClickSchedule Sleep])
     (SchedulerApp_init default_config 0 True True) = [1, 2, 3]"
  using assigned_ids_strictly_increasing [where es = executed_then_rescheduled
      and cfg = default_config and now = 0 and w = True and lw = True and a = Sleep]
  by (simp add: model_defs)

subsection \<open>C10: the inactivity check leaves the registry alone\<close>

text \<open>
  C10. One run of \<open>check_inactivity\<close>, whatever the idle probe answers and whether or
  not it triggers the sleep, leaves the scheduled events and the last assigned identifier
  (and the timers) exactly as they were.
\<close>

theorem check_inactivity_frame:
  "scheduled_events (snd (check_inactivity p s)) = scheduled_events s \<and>
   last_timer_id (snd (check_inactivity p s)) = last_timer_id s \<and>
   timers (snd (check_inactivity p s)) = timers s"
  by (simp add: check_inactivity_def perform_system_action_def Let_def)


end
